theory Spec2Isabelle
  imports Main
begin

section \<open>PGN game records: the data model of pgngame.cpp\<close>

text \<open>
  The file \<^verbatim>\<open>projects/lib/src/pgngame.cpp\<close> reads one chess game in Portable Game
  Notation from a text stream into a \<^verbatim>\<open>PgnGame\<close> object and writes such an object
  back as PGN text.  The development below embeds its three functions
  (\<^verbatim>\<open>readItem\<close>, the parsing constructor, \<^verbatim>\<open>write\<close>) together with the two static
  helpers \<^verbatim>\<open>resultToString\<close> and \<^verbatim>\<open>resultFromString\<close>.

  The enumerations \<^verbatim>\<open>Chess::Result\<close> and \<^verbatim>\<open>Chess::Variant\<close> are declared in a header
  outside this file; their constructors here are exactly the enumerators that
  pgngame.cpp names.  \<^verbatim>\<open>NoResult\<close> and \<^verbatim>\<open>ResultError\<close> fall into the \<^verbatim>\<open>default\<close>
  branch of \<^verbatim>\<open>resultToString\<close>.
\<close>

datatype Result =
    WhiteMates | BlackMates | WhiteResigns | BlackResigns
  | Stalemate | DrawByMaterial | DrawByRepetition | DrawByFiftyMoves
  | DrawByAgreement | NoResult | ResultError

datatype Variant = StandardChess | CapablancaChess

datatype PgnItem =
  PgnMove | PgnMoveNumber | PgnTag | PgnComment | PgnNag | PgnResult | PgnError

text \<open>The member variables of \<^verbatim>\<open>PgnGame\<close>; moves are opaque tokens of type \<open>'m\<close>.\<close>

record 'm PgnGame =
  m_whitePlayer :: string
  m_blackPlayer :: string
  m_moves :: "'m list"
  m_fen :: string
  m_variant :: Variant
  m_isRandomVariant :: bool
  m_result :: Result
  m_isEmpty :: bool
  m_round :: int

text \<open>
  The rules engine \<^verbatim>\<open>Chess::Board\<close> lives outside this file.  It enters the model as a
  record of the operations and constants that pgngame.cpp uses, over an abstract
  board state \<open>'b\<close>: \<^verbatim>\<open>setBoard\<close> returns its success flag together with the board
  it leaves behind, \<^verbatim>\<open>makeMove\<close> returns the advanced board, the other members are
  queries.
\<close>

record ('b, 'm) Board =
  newBoard :: "Variant \<Rightarrow> 'b"
  setBoard :: "'b \<Rightarrow> string \<Rightarrow> bool \<times> 'b"
  fenString :: "'b \<Rightarrow> string"
  moveFromString :: "'b \<Rightarrow> string \<Rightarrow> 'm"
  isLegalMove :: "'b \<Rightarrow> 'm \<Rightarrow> bool"
  makeMove :: "'b \<Rightarrow> 'm \<Rightarrow> 'b"
  moveString :: "'b \<Rightarrow> 'm \<Rightarrow> string"
  standardFen :: string
  capablancaFen :: string
  gothicFen :: string

subsection \<open>Result strings\<close>

fun resultToString :: "Result \<Rightarrow> string" where
  "resultToString WhiteMates = ''1-0''"
| "resultToString BlackResigns = ''1-0''"
| "resultToString BlackMates = ''0-1''"
| "resultToString WhiteResigns = ''0-1''"
| "resultToString Stalemate = ''1/2-1/2''"
| "resultToString DrawByMaterial = ''1/2-1/2''"
| "resultToString DrawByRepetition = ''1/2-1/2''"
| "resultToString DrawByFiftyMoves = ''1/2-1/2''"
| "resultToString DrawByAgreement = ''1/2-1/2''"
| "resultToString NoResult = ''*''"
| "resultToString ResultError = ''*''"

definition resultFromString :: "string \<Rightarrow> Result" where
  "resultFromString s =
     (if s = ''*'' then NoResult
      else if s = ''1-0'' then WhiteMates
      else if s = ''0-1'' then BlackMates
      else if s = ''1/2-1/2'' then DrawByAgreement
      else ResultError)"

section \<open>Characters, strings and the text stream\<close>

text \<open>
  The stream is read through an 8-bit codec, one byte per character, so a
  \<^verbatim>\<open>QChar\<close> is a \<^typ>\<open>char\<close> and the null \<^verbatim>\<open>QChar\<close> is the byte 0.  In that range
  \<^verbatim>\<open>QChar::isSpace\<close> holds of the bytes 9 to 13, of the blank and of the
  no-break space, and \<^verbatim>\<open>QChar::isDigit\<close> of the ten ASCII digits.
\<close>

definition nullChar :: char where
  "nullChar = CHR 0x00"

definition isNull :: "char \<Rightarrow> bool" where
  "isNull c = (c = nullChar)"

definition isSpace :: "char \<Rightarrow> bool" where
  "isSpace c = (c \<in> set [CHR 0x09, CHR 0x0A, CHR 0x0B, CHR 0x0C, CHR 0x0D, CHR '' '', CHR 0xA0])"

definition isDigit :: "char \<Rightarrow> bool" where
  "isDigit c = (c \<in> set ''0123456789'')"

text \<open>\<^verbatim>\<open>QString::trimmed\<close>: white space removed from both ends.\<close>

definition trimmed :: "string \<Rightarrow> string" where
  "trimmed xs = rev (dropWhile isSpace (rev (dropWhile isSpace xs)))"

text \<open>
  \<^verbatim>\<open>str.section(' ', 0, 0)\<close> is the text before the first blank (all of it when
  there is none); \<^verbatim>\<open>str.section(' ', 1)\<close> is the text after the first blank
  (empty when there is none).
\<close>

definition section_first :: "string \<Rightarrow> string" where
  "section_first xs = takeWhile (\<lambda>c. c \<noteq> CHR '' '') xs"

definition section_rest :: "string \<Rightarrow> string" where
  "section_rest xs = drop 1 (dropWhile (\<lambda>c. c \<noteq> CHR '' '') xs)"

text \<open>\<^verbatim>\<open>.replace('\"', "")\<close>: every double quote is removed.\<close>

definition removeQuotes :: "string \<Rightarrow> string" where
  "removeQuotes xs = filter (\<lambda>c. c \<noteq> CHR 0x22) xs"

text \<open>
  \<^verbatim>\<open>QString::toInt\<close> in base 10: after trimming, an optional sign and at least one
  decimal digit, and the value must fit a 32-bit \<^verbatim>\<open>int\<close>; \<open>None\<close> stands for
  \<^verbatim>\<open>ok = false\<close>.
\<close>

definition digitValue :: "char \<Rightarrow> int" where
  "digitValue c = int (of_char c) - 48"

definition digitsValue :: "string \<Rightarrow> int" where
  "digitsValue ds = foldl (\<lambda>acc c. 10 * acc + digitValue c) 0 ds"

definition toInt :: "string \<Rightarrow> int option" where
  "toInt xs =
     (let t = trimmed xs;
          neg = (t \<noteq> [] \<and> hd t = CHR ''-'');
          ds = (if t \<noteq> [] \<and> (hd t = CHR ''-'' \<or> hd t = CHR ''+'') then tl t else t);
          v = (if neg then - digitsValue ds else digitsValue ds)
      in if ds \<noteq> [] \<and> list_all isDigit ds \<and> - 2147483648 \<le> v \<and> v \<le> 2147483647
         then Some v else None)"

text \<open>\<^verbatim>\<open>QString::number\<close> of a non-negative count, in decimal.\<close>

fun number :: "nat \<Rightarrow> string" where
  "number n =
     (if n < 10 then [''0123456789'' ! n]
      else number (n div 10) @ [''0123456789'' ! (n mod 10)])"

subsection \<open>QTextStream\<close>

text \<open>
  A seekable input stream: the characters already read, the characters still to
  come and the status flag.  The device holds \<open>consumed @ unread\<close> and the
  position is the number of characters read.
\<close>

datatype Status = Ok | ReadPastEnd | ReadCorruptData

record stream =
  consumed :: string
  unread :: string
  status :: Status

definition device :: "stream \<Rightarrow> string" where
  "device s = consumed s @ unread s"

definition pos :: "stream \<Rightarrow> int" where
  "pos s = int (length (consumed s))"

text \<open>
  \<^verbatim>\<open>seek\<close> repositions inside the device and leaves the status alone; a position
  outside the device is refused.
\<close>

definition seek :: "int \<Rightarrow> stream \<Rightarrow> stream" where
  "seek p s =
     (if 0 \<le> p \<and> p \<le> int (length (device s))
      then s\<lparr>consumed := take (nat p) (device s), unread := drop (nat p) (device s)\<rparr>
      else s)"

text \<open>
  \<^verbatim>\<open>in >> c\<close>: the next character, white space included; at the end of the device
  the character is null and the status becomes \<^verbatim>\<open>ReadPastEnd\<close> (a status other
  than \<^verbatim>\<open>Ok\<close> is never overwritten).
\<close>

definition getChar :: "stream \<Rightarrow> char \<times> stream" where
  "getChar s =
     (case unread s of
        [] \<Rightarrow> (nullChar, s\<lparr>status := (if status s = Ok then ReadPastEnd else status s)\<rparr>)
      | c # cs \<Rightarrow> (c, s\<lparr>consumed := consumed s @ [c], unread := cs\<rparr>))"

definition skipWhiteSpace :: "stream \<Rightarrow> stream" where
  "skipWhiteSpace s =
     s\<lparr>consumed := consumed s @ takeWhile isSpace (unread s),
       unread := dropWhile isSpace (unread s)\<rparr>"

text \<open>
  \<^verbatim>\<open>readLine\<close>: the text up to the next line feed, which is consumed but not
  returned; a carriage return just before the line feed, or at the very end of the
  device, is dropped from the returned line as well.
\<close>

definition stripCR :: "string \<Rightarrow> string" where
  "stripCR l = (if l \<noteq> [] \<and> last l = CHR 0x0D then butlast l else l)"

definition readLine :: "stream \<Rightarrow> string \<times> stream" where
  "readLine s =
     (let l = takeWhile (\<lambda>c. c \<noteq> CHR 0x0A) (unread s);
          r = dropWhile (\<lambda>c. c \<noteq> CHR 0x0A) (unread s)
      in (stripCR l, s\<lparr>consumed := consumed s @ l @ take 1 r, unread := drop 1 r\<rparr>))"

section \<open>The item classifier: the character loop of readItem\<close>

text \<open>
  The local variables of \<^verbatim>\<open>readItem\<close> that live across iterations of its
  \<^verbatim>\<open>while\<close> loop.  \<^verbatim>\<open>bracketLevel\<close> is a C++ \<^verbatim>\<open>int\<close>; it moves by one per character
  read, so it stays far from the 32-bit limits and is an unbounded integer here.
\<close>

record locals =
  itemType :: PgnItem
  openingBracket :: char
  closingBracket :: char
  bracketLevel :: int
  str :: string

definition locals0 :: locals where
  "locals0 = \<lparr>itemType = PgnMove, openingBracket = nullChar, closingBracket = nullChar,
              bracketLevel = 0, str = []\<rparr>"

text \<open>
  How one pass through the loop body ends: with \<^verbatim>\<open>continue\<close> (or by falling off
  the end of the body), with \<^verbatim>\<open>break\<close>, or with \<^verbatim>\<open>return PgnError\<close>.
\<close>

datatype flow = Continue locals stream | Break locals stream | ReturnError stream

text \<open>Lines 157 to 173: bracket counting, the token terminators, accumulation.\<close>

definition accumulate :: "char \<Rightarrow> locals \<Rightarrow> stream \<Rightarrow> flow" where
  "accumulate c st s =
     (if c = openingBracket st then Continue (st\<lparr>bracketLevel := bracketLevel st + 1\<rparr>) s
      else if c = closingBracket st then
        (if bracketLevel st - 1 \<le> 0 then Break (st\<lparr>bracketLevel := bracketLevel st - 1\<rparr>) s
         else Continue (st\<lparr>bracketLevel := bracketLevel st - 1\<rparr>) s)
      else if itemType st = PgnMove \<and> isSpace c then Break st s
      else if itemType st = PgnMoveNumber \<and> (isSpace c \<or> c = CHR ''.'') then Break st s
      else if itemType st = PgnNag \<and> isSpace c then Break st s
      else Continue (st\<lparr>str := str st @ [c]\<rparr>) s)"

text \<open>Lines 154 and 155: a closing bracket that is set makes \<open>c\<close> the opening one.\<close>

definition openBracket :: "char \<Rightarrow> locals \<Rightarrow> locals" where
  "openBracket c st = (if \<not> isNull (closingBracket st) then st\<lparr>openingBracket := c\<rparr> else st)"

text \<open>
  Lines 127 to 156: the start of a tag or of a bracketed comment.  A tag that
  starts after moves have been read rewinds the stream by one and returns.
\<close>

definition brackets :: "'m PgnGame \<Rightarrow> char \<Rightarrow> locals \<Rightarrow> stream \<Rightarrow> flow" where
  "brackets g c st s =
     (if c = CHR ''['' then
        (if length (m_moves g) > 0 then ReturnError (seek (pos s - 1) s)
         else accumulate c (openBracket c (st\<lparr>itemType := PgnTag, closingBracket := CHR '']''\<rparr>)) s)
      else if c = CHR ''('' then
        accumulate c (openBracket c (st\<lparr>itemType := PgnComment, closingBracket := CHR '')''\<rparr>)) s
      else if c = CHR ''{'' then
        accumulate c (openBracket c (st\<lparr>itemType := PgnComment, closingBracket := CHR ''}''\<rparr>)) s
      else accumulate c (openBracket c st) s)"

text \<open>Lines 94 to 126: what the first character of a token decides.\<close>

definition classify :: "'m PgnGame \<Rightarrow> char \<Rightarrow> locals \<Rightarrow> stream \<Rightarrow> flow" where
  "classify g c st s =
     (if isNull (openingBracket st) then
        (if str st = [] then
           (if c = CHR '';'' then
              Break (st\<lparr>itemType := PgnComment, str := fst (readLine s)\<rparr>) (snd (readLine s))
            else if c = CHR ''%'' then Continue st (snd (readLine s))
            else if c = CHR ''.'' then Continue st (skipWhiteSpace s)
            else if c = CHR ''$'' then Continue (st\<lparr>itemType := PgnNag\<rparr>) s
            else if isDigit c \<and> itemType st = PgnMove
              then brackets g c (st\<lparr>itemType := PgnMoveNumber\<rparr>) s
            else brackets g c st s)
         else brackets g c st s)
      else accumulate c st s)"

text \<open>Lines 88 to 173: one pass through the loop body.\<close>

definition body :: "'m PgnGame \<Rightarrow> locals \<Rightarrow> stream \<Rightarrow> flow" where
  "body g st s =
     (let c = fst (getChar s); s1 = snd (getChar s) in
      if m_isEmpty g \<and> itemType st \<noteq> PgnTag \<and> c \<noteq> CHR ''['' then Continue st s1
      else if (c = CHR 0x0A \<or> c = CHR 0x0D) \<and> itemType st \<noteq> PgnComment then Break st s1
      else classify g c st s1)"

text \<open>
  What the loop leaves behind: the locals and the stream when it ends by \<^verbatim>\<open>break\<close>
  or because the status is no longer \<^verbatim>\<open>Ok\<close>, or the stream alone when the function
  has returned from inside the loop.
\<close>

datatype scanned = Done locals stream | Early stream

definition remaining :: "stream \<Rightarrow> nat" where
  "remaining s = length (unread s) + (if status s = Ok then 1 else 0)"

text \<open>
  Every pass through the body reads one character or runs into the end of the
  device, and the line and white-space readers never move backwards, so the loop
  terminates.
\<close>

lemma remaining_getChar: "status s = Ok \<Longrightarrow> remaining (snd (getChar s)) < remaining s"
  by (simp add: getChar_def remaining_def split: list.splits)

lemma remaining_skipWhiteSpace: "remaining (skipWhiteSpace s) \<le> remaining s"
  by (simp add: skipWhiteSpace_def remaining_def length_dropWhile_le)

lemma remaining_readLine: "remaining (snd (readLine s)) \<le> remaining s"
  by (simp add: readLine_def remaining_def Let_def)
     (metis diff_le_self length_dropWhile_le order_trans)

lemma accumulate_stream:
  "accumulate c st s = Continue st' s' \<Longrightarrow> s' = s"
  "accumulate c st s = Break st' s' \<Longrightarrow> s' = s"
  by (auto simp add: accumulate_def split: if_splits)

lemma brackets_stream:
  "brackets g c st s = Continue st' s' \<Longrightarrow> s' = s"
  "brackets g c st s = Break st' s' \<Longrightarrow> s' = s"
  by (auto simp add: brackets_def split: if_splits dest: accumulate_stream)

lemma classify_stream:
  "classify g c st s = Continue st' s' \<Longrightarrow> remaining s' \<le> remaining s"
  "classify g c st s = Break st' s' \<Longrightarrow> remaining s' \<le> remaining s"
  by (auto simp add: classify_def remaining_readLine remaining_skipWhiteSpace
      split: if_splits dest: accumulate_stream brackets_stream)

lemma body_remaining:
  "status s = Ok \<Longrightarrow> body g st s = Continue st' s' \<Longrightarrow> remaining s' < remaining s"
  "status s = Ok \<Longrightarrow> body g st s = Break st' s' \<Longrightarrow> remaining s' < remaining s"
  using remaining_getChar [of s]
  by (auto simp add: body_def Let_def split: if_splits dest!: classify_stream)

text \<open>Lines 86 to 174: the loop \<^verbatim>\<open>while (in.status() == QTextStream::Ok)\<close>.\<close>

function scan_loop :: "'m PgnGame \<Rightarrow> locals \<Rightarrow> stream \<Rightarrow> scanned" where
  "scan_loop g st s =
     (if status s = Ok then
        (case body g st s of
           Continue st' s' \<Rightarrow> scan_loop g st' s'
         | Break st' s' \<Rightarrow> Done st' s'
         | ReturnError s' \<Rightarrow> Early s')
      else Done st s)"
  by pat_completeness auto
termination
  by (relation "measure (\<lambda>(g, st, s). remaining s)") (auto dest: body_remaining)

declare scan_loop.simps [simp del]

section \<open>The game builder: the dispatch of readItem and the parsing constructor\<close>

definition isResultToken :: "string \<Rightarrow> bool" where
  "isResultToken t = (t = ''*'' \<or> t = ''1/2-1/2'' \<or> t = ''1-0'' \<or> t = ''0-1'')"

text \<open>Lines 191 to 215: a tag pair is split at its first blank and applied.\<close>

definition dispatchTag ::
  "('b, 'm) Board \<Rightarrow> 'm PgnGame \<Rightarrow> 'b \<Rightarrow> string \<Rightarrow> PgnItem \<times> 'm PgnGame \<times> 'b" where
  "dispatchTag B g b t =
     (let tag = section_first t; param = removeQuotes (section_rest t) in
      if tag = ''White'' then (PgnTag, g\<lparr>m_whitePlayer := param\<rparr>, b)
      else if tag = ''Black'' then (PgnTag, g\<lparr>m_blackPlayer := param\<rparr>, b)
      else if tag = ''Result'' then (PgnTag, g\<lparr>m_result := resultFromString param\<rparr>, b)
      else if tag = ''FEN'' then
        (if \<not> fst (setBoard B b param)
         then (PgnError, g\<lparr>m_fen := param\<rparr>, snd (setBoard B b param))
         else (PgnTag, g\<lparr>m_fen := param\<rparr>, snd (setBoard B b param)))
      else (PgnTag, g, b))"

text \<open>Lines 216 to 235: a move token is decoded, checked and played.\<close>

definition dispatchMove ::
  "('b, 'm) Board \<Rightarrow> 'm PgnGame \<Rightarrow> 'b \<Rightarrow> string \<Rightarrow> PgnItem \<times> 'm PgnGame \<times> 'b" where
  "dispatchMove B g b t =
     (if m_isEmpty g then (PgnError, g, b)
      else if isLegalMove B b (moveFromString B b t)
        then (PgnMove, g\<lparr>m_moves := m_moves g @ [moveFromString B b t]\<rparr>,
              makeMove B b (moveFromString B b t))
      else (PgnError, g, b))"

text \<open>Lines 236 to 245: a numeric annotation glyph is checked and dropped.\<close>

definition dispatchNag :: "string \<Rightarrow> PgnItem" where
  "dispatchNag t =
     (case toInt t of
        None \<Rightarrow> PgnError
      | Some nag \<Rightarrow> if nag < 0 \<or> nag > 255 then PgnError else PgnNag)"

text \<open>Lines 176 to 247: everything \<^verbatim>\<open>readItem\<close> does after its loop.\<close>

definition dispatch ::
  "('b, 'm) Board \<Rightarrow> 'm PgnGame \<Rightarrow> 'b \<Rightarrow> PgnItem \<Rightarrow> string \<Rightarrow> PgnItem \<times> 'm PgnGame \<times> 'b" where
  "dispatch B g b it s0 =
     (let t = trimmed s0 in
      if t = [] then (PgnError, g, b)
      else if (it = PgnMove \<or> it = PgnMoveNumber) \<and> isResultToken t
        then (PgnResult, g\<lparr>m_result := resultFromString t\<rparr>, b)
      else if it = PgnTag then dispatchTag B g b t
      else if it = PgnMove then dispatchMove B g b t
      else if it = PgnNag then (dispatchNag t, g, b)
      else (it, g, b))"

text \<open>
  \<^verbatim>\<open>PgnGame::readItem\<close>: the item kind it returns, with the game, the stream and
  the board as the call leaves them.
\<close>

definition readItem ::
  "('b, 'm) Board \<Rightarrow> 'm PgnGame \<Rightarrow> stream \<Rightarrow> 'b \<Rightarrow> PgnItem \<times> 'm PgnGame \<times> stream \<times> 'b" where
  "readItem B g s b =
     (case scan_loop g locals0 (skipWhiteSpace s) of
        Early s' \<Rightarrow> (PgnError, g, s', b)
      | Done st s' \<Rightarrow>
          (case dispatch B g b (itemType st) (str st) of
             (item, g', b') \<Rightarrow> (item, g', s', b')))"

lemma scan_loop_remaining:
  "scan_loop g st s = Done st' s' \<Longrightarrow> status s = Ok \<Longrightarrow> remaining s' < remaining s"
proof (induction g st s rule: scan_loop.induct)
  case (1 g st s)
  show ?case
  proof (cases "body g st s")
    case (Continue st1 s1)
    have less: "remaining s1 < remaining s"
      using body_remaining(1) [of s g st st1 s1] "1.prems" Continue by simp
    have next_loop: "scan_loop g st1 s1 = Done st' s'"
      using "1.prems" Continue by (simp add: scan_loop.simps [of g st s])
    show ?thesis
    proof (cases "status s1 = Ok")
      case True
      then show ?thesis
        using "1.IH" [OF "1.prems"(2) Continue next_loop] less by simp
    next
      case False
      then show ?thesis
        using next_loop less by (simp add: scan_loop.simps [of g st1 s1])
    qed
  next
    case (Break st1 s1)
    then show ?thesis
      using body_remaining(2) [of s g st st1 s1] "1.prems"
      by (simp add: scan_loop.simps [of g st s])
  next
    case (ReturnError s1)
    then show ?thesis
      using "1.prems" by (simp add: scan_loop.simps [of g st s])
  qed
qed

lemma readItem_remaining:
  assumes "readItem B g s b = (item, g', s', b')" and "status s = Ok" and "item \<noteq> PgnError"
  shows "remaining s' < remaining s"
proof (cases "scan_loop g locals0 (skipWhiteSpace s)")
  case (Done st s1)
  have "status (skipWhiteSpace s) = Ok"
    using assms(2) by (simp add: skipWhiteSpace_def)
  then have "remaining s1 < remaining (skipWhiteSpace s)"
    using scan_loop_remaining [OF Done] by simp
  moreover have "s' = s1"
    using assms(1) Done by (simp add: readItem_def split: prod.splits)
  ultimately show ?thesis
    using remaining_skipWhiteSpace [of s] by simp
next
  case (Early s1)
  then show ?thesis
    using assms(1,3) by (simp add: readItem_def)
qed

text \<open>
  Lines 258 to 268: the loop of the parsing constructor.  \<^verbatim>\<open>maxMoves\<close> is a C++
  \<^verbatim>\<open>int\<close> and may be zero or negative.
\<close>

function parse_loop ::
  "('b, 'm) Board \<Rightarrow> int \<Rightarrow> 'm PgnGame \<Rightarrow> stream \<Rightarrow> 'b \<Rightarrow> 'm PgnGame \<times> stream \<times> 'b" where
  "parse_loop B maxMoves g s b =
     (if status s = Ok \<and> int (length (m_moves g)) < maxMoves then
        (case readItem B g s b of
           (item, g', s', b') \<Rightarrow>
             if item = PgnError then (g', s', b')
             else if item = PgnTag then parse_loop B maxMoves (g'\<lparr>m_isEmpty := False\<rparr>) s' b'
             else if item = PgnResult then (g', s', b')
             else parse_loop B maxMoves g' s' b')
      else (g, s, b))"
  by pat_completeness auto
termination
  by (relation "measure (\<lambda>(B, maxMoves, g, s, b). remaining s)")
     (auto dest: readItem_remaining [OF sym])

declare parse_loop.simps [simp del]

text \<open>
  Lines 250 to 269: \<^verbatim>\<open>PgnGame::PgnGame(QTextStream&, int)\<close>.  The result is the
  game that was built, next to the stream as the constructor leaves it and the
  constructor's own board.
\<close>

definition emptyGame :: "string \<Rightarrow> 'm PgnGame" where
  "emptyGame fen =
     \<lparr>m_whitePlayer = [], m_blackPlayer = [], m_moves = [], m_fen = fen,
      m_variant = StandardChess, m_isRandomVariant = False, m_result = NoResult,
      m_isEmpty = True, m_round = 0\<rparr>"

definition startBoard :: "('b, 'm) Board \<Rightarrow> 'b" where
  "startBoard B = snd (setBoard B (newBoard B StandardChess) (standardFen B))"

definition PgnGame_stream ::
  "('b, 'm) Board \<Rightarrow> stream \<Rightarrow> int \<Rightarrow> 'm PgnGame \<times> stream \<times> 'b" where
  "PgnGame_stream B s maxMoves =
     parse_loop B maxMoves (emptyGame (fenString B (startBoard B))) s (startBoard B)"

definition parsedGame :: "('b, 'm) Board \<Rightarrow> stream \<Rightarrow> int \<Rightarrow> 'm PgnGame" where
  "parsedGame B s maxMoves = fst (PgnGame_stream B s maxMoves)"

section \<open>Construction from a live game\<close>

text \<open>
  What \<^verbatim>\<open>PgnGame::PgnGame(const ChessGame*)\<close> reads from the game and its board.
  The constructor leaves \<^verbatim>\<open>m_round\<close> uninitialised, so the value it happens to hold
  is a field of its own here.
\<close>

record 'm ChessGame =
  whiteName :: string
  blackName :: string
  moveHistory :: "'m list"
  startingFen :: string
  variant :: Variant
  isRandomVariant :: bool
  result :: Result
  roundGarbage :: int

definition PgnGame_game :: "'m ChessGame \<Rightarrow> 'm PgnGame" where
  "PgnGame_game game =
     \<lparr>m_whitePlayer = whiteName game, m_blackPlayer = blackName game,
      m_moves = moveHistory game, m_fen = startingFen game, m_variant = variant game,
      m_isRandomVariant = isRandomVariant game, m_result = result game,
      m_isEmpty = False, m_round = roundGarbage game\<rparr>"

text \<open>The games that the two constructors build.\<close>

inductive built :: "('b, 'm) Board \<Rightarrow> 'm PgnGame \<Rightarrow> bool" for B :: "('b, 'm) Board" where
  from_game: "built B (PgnGame_game game)"
| from_stream: "built B (parsedGame B s maxMoves)"

section \<open>The serializer\<close>

text \<open>Lines 276 to 295: which variant name is written and whether a FEN tag is.\<close>

definition useFen :: "('b, 'm) Board \<Rightarrow> 'm PgnGame \<Rightarrow> bool" where
  "useFen B g =
     (if m_variant g = StandardChess then m_fen g \<noteq> standardFen B
      else if m_variant g = CapablancaChess then
        (if m_fen g = capablancaFen B then False
         else if m_fen g = gothicFen B then False
         else True)
      else False)"

definition variantString :: "('b, 'm) Board \<Rightarrow> 'm PgnGame \<Rightarrow> string" where
  "variantString B g =
     (if m_variant g = StandardChess then
        (if m_isRandomVariant g then ''Fischerandom'' else [])
      else if m_variant g = CapablancaChess then
        (let named = (if m_fen g = capablancaFen B then ''Capablanca''
                      else if m_fen g = gothicFen B then ''Gothic''
                      else [])
         in if m_isRandomVariant g then ''Capablancarandom'' else named)
      else [])"

text \<open>Lines 305 to 312: the tag section; the date is the caller's current date.\<close>

definition tagLine :: "string \<Rightarrow> string \<Rightarrow> string" where
  "tagLine name val = ''['' @ name @ '' '' @ [CHR 0x22] @ val @ [CHR 0x22] @ '']'' @ [CHR 0x0A]"

definition write_tags :: "('b, 'm) Board \<Rightarrow> string \<Rightarrow> 'm PgnGame \<Rightarrow> string" where
  "write_tags B date g =
     tagLine ''Date'' date @ tagLine ''White'' (m_whitePlayer g)
     @ tagLine ''Black'' (m_blackPlayer g)
     @ tagLine ''Result'' (resultToString (m_result g))
     @ (if variantString B g \<noteq> [] then tagLine ''Variant'' (variantString B g) else [])
     @ (if useFen B g then tagLine ''FEN'' (m_fen g) else [])"

text \<open>
  Lines 316 to 324: the loop over the moves, from index \<open>i\<close> on, with the board
  as the moves before \<open>i\<close> have left it.
\<close>

fun write_moves :: "('b, 'm) Board \<Rightarrow> 'b \<Rightarrow> nat \<Rightarrow> 'm list \<Rightarrow> string" where
  "write_moves B b i [] = []"
| "write_moves B b i (m # ms) =
     (if i mod 8 = 0 then [CHR 0x0A] else [])
     @ (if i mod 2 = 0 then number (i div 2 + 1) @ ''. '' else [])
     @ moveString B b m @ '' ''
     @ write_moves B (makeMove B b m) (Suc i) ms"

text \<open>
  The file that \<^verbatim>\<open>write\<close> appends to: whether it can be opened for appending,
  and its contents.
\<close>

record sink =
  appendable :: bool
  contents :: string

text \<open>Lines 271 to 327: \<^verbatim>\<open>PgnGame::write\<close>, as the file it leaves behind.\<close>

definition pgnText :: "('b, 'm) Board \<Rightarrow> string \<Rightarrow> 'm PgnGame \<Rightarrow> string" where
  "pgnText B date g =
     write_tags B date g
     @ write_moves B (snd (setBoard B (newBoard B (m_variant g)) (m_fen g))) 0 (m_moves g)
     @ resultToString (m_result g) @ [CHR 0x0A, CHR 0x0A]"

definition write_pgn :: "('b, 'm) Board \<Rightarrow> string \<Rightarrow> 'm PgnGame \<Rightarrow> sink \<Rightarrow> sink" where
  "write_pgn B date g f =
     (if m_isEmpty g then f
      else if appendable f then f\<lparr>contents := contents f @ pgnText B date g\<rparr>
      else f)"

definition isEmpty :: "'m PgnGame \<Rightarrow> bool" where
  "isEmpty g = m_isEmpty g"

section \<open>The move text, position by position\<close>

text \<open>
  The move text as the specification words it: the board before ply \<open>i\<close> is the
  starting board with the first \<open>i\<close> moves made; ply \<open>i\<close> is written as a line
  break when \<open>i\<close> is a multiple of 8, the move number \<open>i div 2 + 1\<close> with a
  period when \<open>i\<close> is even, and the notation the board before ply \<open>i\<close> gives the
  move; the result token and an empty line close the text.
\<close>

definition boardBefore :: "('b, 'm) Board \<Rightarrow> 'b \<Rightarrow> 'm list \<Rightarrow> nat \<Rightarrow> 'b" where
  "boardBefore B b0 ms i = foldl (makeMove B) b0 (take i ms)"

definition plyText :: "('b, 'm) Board \<Rightarrow> 'b \<Rightarrow> 'm list \<Rightarrow> nat \<Rightarrow> string" where
  "plyText B b0 ms i =
     (if 8 dvd i then [CHR 0x0A] else [])
     @ (if even i then number (i div 2 + 1) @ ''. '' else [])
     @ moveString B (boardBefore B b0 ms i) (ms ! i) @ '' ''"

definition moveText :: "('b, 'm) Board \<Rightarrow> 'm PgnGame \<Rightarrow> string" where
  "moveText B g =
     concat (map (plyText B (snd (setBoard B (newBoard B (m_variant g)) (m_fen g))) (m_moves g))
                 [0..<length (m_moves g)])
     @ resultToString (m_result g) @ [CHR 0x0A, CHR 0x0A]"

section \<open>Text that reads back: tokens, tags and replayable moves\<close>

text \<open>
  The characters that the loop of \<^verbatim>\<open>readItem\<close> accumulates into an unbracketed
  token, and those that may begin one.
\<close>

definition plainChar :: "char \<Rightarrow> bool" where
  "plainChar c = (\<not> isSpace c \<and> c \<noteq> CHR ''['' \<and> c \<noteq> CHR ''('' \<and> c \<noteq> CHR ''{'' \<and> c \<noteq> nullChar)"

definition startChar :: "char \<Rightarrow> bool" where
  "startChar c = (plainChar c \<and> c \<noteq> CHR '';'' \<and> c \<noteq> CHR ''%'' \<and> c \<noteq> CHR ''.'' \<and> c \<noteq> CHR ''$'')"

text \<open>The characters that the loop accumulates inside a tag.\<close>

definition tagChar :: "char \<Rightarrow> bool" where
  "tagChar c = (c \<noteq> CHR ''['' \<and> c \<noteq> CHR '']'' \<and> c \<noteq> CHR 0x0A \<and> c \<noteq> CHR 0x0D)"

text \<open>The item type a token gets from its first character, and what ends the token.\<close>

definition tokenType :: "char \<Rightarrow> PgnItem" where
  "tokenType c = (if isDigit c then PgnMoveNumber else PgnMove)"

definition endsToken :: "PgnItem \<Rightarrow> char \<Rightarrow> bool" where
  "endsToken it d = (isSpace d \<or> (it = PgnMoveNumber \<and> d = CHR ''.''))"

text \<open>The locals in the middle of an unbracketed token and in the middle of a tag.\<close>

definition inToken :: "PgnItem \<Rightarrow> string \<Rightarrow> locals" where
  "inToken it acc = locals0\<lparr>itemType := it, str := acc\<rparr>"

definition inTag :: "int \<Rightarrow> string \<Rightarrow> locals" where
  "inTag lvl acc = \<lparr>itemType = PgnTag, openingBracket = CHR ''['', closingBracket = CHR '']'',
                    bracketLevel = lvl, str = acc\<rparr>"

text \<open>
  A move token as \<^verbatim>\<open>readItem\<close> reads one: not empty, begun by a character that is
  neither a digit nor one of the marks the loop looks for, made of plain
  characters, and not one of the four result tokens.
\<close>

definition sanToken :: "string \<Rightarrow> bool" where
  "sanToken t = (t \<noteq> [] \<and> startChar (hd t) \<and> \<not> isDigit (hd t) \<and> list_all plainChar (tl t)
                 \<and> \<not> isResultToken t)"

text \<open>
  A tag name, the text between the brackets of a tag pair, and a tag value that
  comes back from a tag pair as it went in.
\<close>

definition tagName :: "string \<Rightarrow> bool" where
  "tagName name = (name \<noteq> [] \<and> list_all tagChar name \<and> \<not> isSpace (hd name) \<and> CHR '' '' \<notin> set name)"

definition tagBody :: "string \<Rightarrow> string \<Rightarrow> string" where
  "tagBody name val = name @ '' '' @ [CHR 0x22] @ val @ [CHR 0x22]"

definition tagSafe :: "string \<Rightarrow> bool" where
  "tagSafe v = (list_all tagChar v \<and> CHR 0x22 \<notin> set v)"

text \<open>
  What reading back asks of the rules engine, along the game from board \<open>b\<close>:
  the notation of each move is a move token, decoding it on the same board gives
  a legal move with the same notation, and making that move gives the same board
  as making the original one.
\<close>

fun replays :: "('b, 'm) Board \<Rightarrow> 'b \<Rightarrow> 'm list \<Rightarrow> bool" where
  "replays B b [] = True"
| "replays B b (m # ms) =
     (sanToken (moveString B b m)
      \<and> isLegalMove B b (moveFromString B b (moveString B b m))
      \<and> moveString B b (moveFromString B b (moveString B b m)) = moveString B b m
      \<and> makeMove B b (moveFromString B b (moveString B b m)) = makeMove B b m
      \<and> replays B (makeMove B b m) ms)"

text \<open>The moves that decoding the notation gives back, and the notation of a move list.\<close>

fun reparsed :: "('b, 'm) Board \<Rightarrow> 'b \<Rightarrow> 'm list \<Rightarrow> 'm list" where
  "reparsed B b [] = []"
| "reparsed B b (m # ms) =
     moveFromString B b (moveString B b m) # reparsed B (makeMove B b m) ms"

fun sanList :: "('b, 'm) Board \<Rightarrow> 'b \<Rightarrow> 'm list \<Rightarrow> string list" where
  "sanList B b [] = []"
| "sanList B b (m # ms) = moveString B b m # sanList B (makeMove B b m) ms"

section \<open>The locals while the game is empty\<close>

text \<open>
  The two shapes the locals take while the game is still empty: nothing read
  yet, or inside the first tag.
\<close>

definition awaitingTag :: "locals \<Rightarrow> bool" where
  "awaitingTag st =
     ((itemType st = PgnMove \<and> str st = [] \<and> openingBracket st = nullChar)
      \<or> (itemType st = PgnTag \<and> openingBracket st \<noteq> nullChar))"

section \<open>A small rules engine for running the code\<close>

text \<open>
  A stand-in for \<^verbatim>\<open>Chess::Board\<close> on which the functions above can be run: a board
  is its starting position and the moves played on it, a move is its own
  notation, the legal moves are a fixed handful of tokens, and every position
  string is accepted except the empty one and \<^verbatim>\<open>bad\<close>.
\<close>

definition toyBoard :: "(string \<times> string list, string) Board" where
  "toyBoard =
     \<lparr>newBoard = (\<lambda>v. ([], [])),
      setBoard = (\<lambda>b fen. if fen = [] \<or> fen = ''bad'' then (False, b) else (True, (fen, []))),
      fenString = fst,
      moveFromString = (\<lambda>b t. t),
      isLegalMove = (\<lambda>b m. m \<in> set [''e4'', ''e5'', ''Nf3'', ''Nc6'', ''Bb5'', ''a6'', ''O-O'']),
      makeMove = (\<lambda>b m. (fst b, snd b @ [m])),
      moveString = (\<lambda>b m. m),
      standardFen = ''rnbqkbnr/pppppppp/8/8/8/8/PPPPPPPP/RNBQKBNR w KQkq - 0 1'',
      capablancaFen = ''rnabqkbcnr/pppppppppp/10/10/10/10/PPPPPPPPPP/RNABQKBCNR w KQkq - 0 1'',
      gothicFen = ''rnbqckabnr/pppppppppp/10/10/10/10/PPPPPPPPPP/RNBQCKABNR w KQkq - 0 1''\<rparr>"

definition textStream :: "string \<Rightarrow> stream" where
  "textStream xs = \<lparr>consumed = [], unread = xs, status = Ok\<rparr>"

text \<open>
  Sample inputs: a game with one move played, a game of 17 plies, and a live game
  of the Capablanca variant from the Gothic position.
\<close>

definition oneMoveGame :: "string PgnGame" where
  "oneMoveGame = (emptyGame ''rnbqkbnr/pppppppp/8/8/8/8/PPPPPPPP/RNBQKBNR w KQkq - 0 1'')
     \<lparr>m_whitePlayer := ''A'', m_blackPlayer := ''B'', m_moves := [''e4''], m_isEmpty := False\<rparr>"

definition seventeenPlies :: "string PgnGame" where
  "seventeenPlies = (emptyGame ''rnbqkbnr/pppppppp/8/8/8/8/PPPPPPPP/RNBQKBNR w KQkq - 0 1'')
     \<lparr>m_whitePlayer := ''A'', m_blackPlayer := ''B'',
      m_moves := [''e4'', ''e5'', ''Nf3'', ''Nc6'', ''Bb5'', ''a6'', ''O-O'', ''e5'',
                  ''e4'', ''e5'', ''e4'', ''e5'', ''e4'', ''e5'', ''e4'', ''e5'', ''e4''],
      m_result := DrawByAgreement, m_isEmpty := False\<rparr>"

definition gothicLiveGame :: "bool \<Rightarrow> string ChessGame" where
  "gothicLiveGame random =
     \<lparr>whiteName = ''A'', blackName = ''B'', moveHistory = [], startingFen = gothicFen toyBoard,
      variant = CapablancaChess, isRandomVariant = random, result = NoResult, roundGarbage = 0\<rparr>"

text \<open>Sample streams, and the locals and streams that reading them leaves.\<close>

definition shortGameText :: string where
  "shortGameText = ''[White '' @ [CHR 0x22] @ ''A'' @ [CHR 0x22] @ '']'' @ [CHR 0x0A]
     @ ''1. e4 e5 2. Nf3 1-0'' @ [CHR 0x0A]"


definition badFenStream :: stream where
  "badFenStream = textStream (''[FEN '' @ [CHR 0x22] @ ''bad'' @ [CHR 0x22] @ '']'' @ [CHR 0x0A] @ ''1. e4'')"

definition goodFenStream :: stream where
  "goodFenStream = textStream (''[FEN '' @ [CHR 0x22] @ ''8/8 w'' @ [CHR 0x22] @ '']'' @ [CHR 0x0A] @ ''1. e4'')"

definition fenLocals :: "string \<Rightarrow> locals" where
  "fenLocals xs = \<lparr>itemType = PgnTag, openingBracket = CHR ''['', closingBracket = CHR '']'',
                   bracketLevel = 0, str = ''FEN '' @ [CHR 0x22] @ xs @ [CHR 0x22]\<rparr>"

definition afterFen :: "string \<Rightarrow> stream" where
  "afterFen xs = \<lparr>consumed = ''[FEN '' @ [CHR 0x22] @ xs @ [CHR 0x22] @ '']'',
                  unread = [CHR 0x0A] @ ''1. e4'', status = Ok\<rparr>"


definition nagLocals :: "string \<Rightarrow> locals" where
  "nagLocals xs = locals0\<lparr>itemType := PgnNag, str := xs\<rparr>"

text \<open>
  Games for the round trip: one whose result is \<^verbatim>\<open>ResultError\<close>, one with a double
  quote and one with a closing bracket in a player name, one whose starting
  position the small rules engine rejects, one with the random flag set, one
  with a move it does not know, and one that starts from a position of its own;
  and the stream over what \<^verbatim>\<open>write\<close> appends to an empty file.
\<close>

definition resultErrorGame :: "string PgnGame" where
  "resultErrorGame = oneMoveGame\<lparr>m_result := ResultError\<rparr>"

definition quotedNameGame :: "string PgnGame" where
  "quotedNameGame = oneMoveGame\<lparr>m_whitePlayer := [CHR ''A'', CHR 0x22, CHR ''B'']\<rparr>"

definition bracketNameGame :: "string PgnGame" where
  "bracketNameGame = oneMoveGame\<lparr>m_blackPlayer := ''B]C''\<rparr>"

definition rejectedStartGame :: "string PgnGame" where
  "rejectedStartGame = oneMoveGame\<lparr>m_fen := ''bad''\<rparr>"

definition randomStartGame :: "string PgnGame" where
  "randomStartGame = oneMoveGame\<lparr>m_isRandomVariant := True\<rparr>"

definition illegalMoveGame :: "string PgnGame" where
  "illegalMoveGame = oneMoveGame\<lparr>m_moves := [''e9'']\<rparr>"

definition customStartGame :: "string PgnGame" where
  "customStartGame = oneMoveGame\<lparr>m_fen := ''8/8 w - - 0 1'', m_moves := [''e4'', ''e5''],
     m_isRandomVariant := True, m_result := BlackResigns\<rparr>"

definition written :: "string PgnGame \<Rightarrow> stream" where
  "written g = textStream (contents (write_pgn toyBoard ''2026.11.03'' g \<lparr>appendable = True, contents = []\<rparr>))"

section \<open>Properties of the classifier loop\<close>

lemma scan_loop_Ok:
  "status s = Ok \<Longrightarrow> scan_loop g st s =
     (case body g st s of Continue st' s' \<Rightarrow> scan_loop g st' s' | Break st' s' \<Rightarrow> Done st' s'
      | ReturnError s' \<Rightarrow> Early s')"
  by (simp add: scan_loop.simps [of g st s])

lemma scan_loop_stop: "status s \<noteq> Ok \<Longrightarrow> scan_loop g st s = Done st s"
  by (simp add: scan_loop.simps [of g st s])

lemma readItem_Done:
  "scan_loop g locals0 (skipWhiteSpace s) = Done st s' \<Longrightarrow>
   readItem B g s b =
     (fst (dispatch B g b (itemType st) (str st)), fst (snd (dispatch B g b (itemType st) (str st))),
      s', snd (snd (dispatch B g b (itemType st) (str st))))"
  by (simp add: readItem_def split: prod.splits)

lemma readItem_Early:
  "scan_loop g locals0 (skipWhiteSpace s) = Early s' \<Longrightarrow> readItem B g s b = (PgnError, g, s', b)"
  by (simp add: readItem_def)

lemma parse_loop_step:
  "status s = Ok \<Longrightarrow> int (length (m_moves g)) < maxMoves \<Longrightarrow>
   parse_loop B maxMoves g s b =
     (case readItem B g s b of
        (item, g', s', b') \<Rightarrow>
          if item = PgnError then (g', s', b')
          else if item = PgnTag then parse_loop B maxMoves (g'\<lparr>m_isEmpty := False\<rparr>) s' b'
          else if item = PgnResult then (g', s', b')
          else parse_loop B maxMoves g' s' b')"
  by (simp add: parse_loop.simps [of B maxMoves g s b])

lemma parse_loop_exit:
  "\<not> (status s = Ok \<and> int (length (m_moves g)) < maxMoves) \<Longrightarrow>
   parse_loop B maxMoves g s b = (g, s, b)"
  by (subst parse_loop.simps) auto

subsection \<open>A tag bracket outside a bracketed item, after moves\<close>




subsection \<open>While the game is empty, the loop waits for a tag\<close>

lemma accumulate_inTag:
  "itemType st = PgnTag \<Longrightarrow> openingBracket st \<noteq> nullChar \<Longrightarrow>
   (case accumulate c st s of
      Continue st' s' \<Rightarrow> itemType st' = PgnTag \<and> openingBracket st' \<noteq> nullChar
    | Break st' s' \<Rightarrow> itemType st' = PgnTag
    | ReturnError s' \<Rightarrow> True)"
  by (simp add: accumulate_def)

lemma body_awaitingTag:
  assumes "m_isEmpty g" and "awaitingTag st"
  shows "case body g st s of
           Continue st' s' \<Rightarrow> awaitingTag st'
         | Break st' s' \<Rightarrow> itemType st' = PgnTag \<or> str st' = []
         | ReturnError s' \<Rightarrow> True"
proof (cases "itemType st = PgnTag")
  case True
  then have "openingBracket st \<noteq> nullChar"
    using assms(2) by (auto simp add: awaitingTag_def)
  then show ?thesis
    using True accumulate_inTag [of st "fst (getChar s)" "snd (getChar s)"]
    by (auto simp add: body_def classify_def isNull_def awaitingTag_def Let_def split: flow.splits)
next
  case False
  then have st: "itemType st = PgnMove" "str st = []" "openingBracket st = nullChar"
    using assms(2) by (auto simp add: awaitingTag_def)
  show ?thesis
  proof (cases "fst (getChar s) = CHR ''[''")
    case True
    then show ?thesis
      using assms(1) st
      by (simp add: body_def Let_def classify_def brackets_def isNull_def isDigit_def
          accumulate_def openBracket_def awaitingTag_def nullChar_def)
  next
    case False
    then show ?thesis
      using assms(1,2) st by (simp add: body_def Let_def)
  qed
qed

lemma scan_loop_awaitingTag:
  "m_isEmpty g \<Longrightarrow> awaitingTag st \<Longrightarrow> scan_loop g st s = Done st' s'
   \<Longrightarrow> itemType st' = PgnTag \<or> str st' = []"
proof (induction g st s rule: scan_loop.induct)
  case (1 g st s)
  show ?case
  proof (cases "status s = Ok")
    case True
    show ?thesis
    proof (cases "body g st s")
      case (Continue st1 s1)
      have inv: "awaitingTag st1"
        using Continue body_awaitingTag [OF "1.prems"(1,2), of s] by simp
      have "scan_loop g st1 s1 = Done st' s'"
        using "1.prems"(3) True Continue by (simp add: scan_loop_Ok)
      then show ?thesis
        using "1.IH" [OF True Continue "1.prems"(1) inv] by simp
    next
      case (Break st1 s1)
      then show ?thesis
        using True "1.prems"(3) body_awaitingTag [OF "1.prems"(1,2), of s]
        by (simp add: scan_loop_Ok)
    next
      case (ReturnError s1)
      then show ?thesis
        using "1.prems" True by (simp add: scan_loop_Ok)
    qed
  next
    case False
    then show ?thesis
      using "1.prems" by (auto simp add: scan_loop_stop awaitingTag_def)
  qed
qed

lemma dispatch_empty_game:
  assumes "m_isEmpty g" and "it = PgnTag \<or> s0 = []"
  shows "fst (dispatch B g b it s0) = PgnTag \<or> fst (dispatch B g b it s0) = PgnError"
  using assms by (auto simp add: dispatch_def dispatchTag_def trimmed_def Let_def)

subsection \<open>A stream without an opening square bracket\<close>

lemma body_no_bracket:
  assumes "m_isEmpty g" and "itemType st \<noteq> PgnTag" and "CHR ''['' \<notin> set (unread s)"
  shows "body g st s = Continue st (snd (getChar s))
    \<and> CHR ''['' \<notin> set (unread (snd (getChar s)))"
  using assms by (cases "unread s") (auto simp add: body_def Let_def getChar_def nullChar_def)

lemma scan_loop_no_bracket:
  "m_isEmpty g \<Longrightarrow> itemType st \<noteq> PgnTag \<Longrightarrow> CHR ''['' \<notin> set (unread s)
   \<Longrightarrow> \<exists>s'. scan_loop g st s = Done st s'"
proof (induction g st s rule: scan_loop.induct)
  case (1 g st s)
  show ?case
  proof (cases "status s = Ok")
    case True
    have step: "body g st s = Continue st (snd (getChar s))"
      and rest: "CHR ''['' \<notin> set (unread (snd (getChar s)))"
      using body_no_bracket [OF "1.prems"] by simp_all
    show ?thesis
      using "1.IH" [OF True step "1.prems"(1,2) rest] True step by (simp add: scan_loop_Ok)
  next
    case False
    then show ?thesis by (simp add: scan_loop_stop)
  qed
qed

lemma readItem_no_bracket:
  assumes "m_isEmpty g" and "CHR ''['' \<notin> set (unread s)"
  shows "\<exists>s'. readItem B g s b = (PgnError, g, s', b)"
proof -
  have "CHR ''['' \<notin> set (unread (skipWhiteSpace s))"
    using assms(2) by (auto simp add: skipWhiteSpace_def dest: set_dropWhileD)
  then obtain s' where "scan_loop g locals0 (skipWhiteSpace s) = Done locals0 s'"
    using scan_loop_no_bracket [OF assms(1), of locals0 "skipWhiteSpace s"]
    by (auto simp add: locals0_def)
  then show ?thesis
    by (simp add: readItem_Done dispatch_def trimmed_def locals0_def)
qed

lemma parse_loop_no_bracket:
  assumes "m_isEmpty g" and "CHR ''['' \<notin> set (unread s)"
  shows "fst (parse_loop B maxMoves g s b) = g"
proof (cases "status s = Ok \<and> int (length (m_moves g)) < maxMoves")
  case True
  obtain s' where "readItem B g s b = (PgnError, g, s', b)"
    using readItem_no_bracket [OF assms, of B b] by blast
  then show ?thesis
    using True by (simp add: parse_loop_step)
next
  case False
  then show ?thesis by (simp add: parse_loop_exit)
qed

subsection \<open>The move count\<close>

lemma dispatch_moves:
  "length (m_moves (fst (snd (dispatch B g b it s0)))) \<le> Suc (length (m_moves g))"
  by (simp add: dispatch_def dispatchTag_def dispatchMove_def Let_def)

lemma readItem_moves:
  "length (m_moves (fst (snd (readItem B g s b)))) \<le> Suc (length (m_moves g))"
  by (cases "scan_loop g locals0 (skipWhiteSpace s)")
     (simp_all add: readItem_Done readItem_Early dispatch_moves)

lemma parse_loop_bound:
  "int (length (m_moves g)) \<le> maxMoves \<Longrightarrow>
   int (length (m_moves (fst (parse_loop B maxMoves g s b)))) \<le> maxMoves"
proof (induction B maxMoves g s b rule: parse_loop.induct)
  case (1 B maxMoves g s b)
  show ?case
  proof (cases "status s = Ok \<and> int (length (m_moves g)) < maxMoves")
    case True
    obtain item g' s' b' where r: "readItem B g s b = (item, g', s', b')"
      by (metis prod_cases4)
    have bound: "int (length (m_moves g')) \<le> maxMoves"
      using readItem_moves [of B g s b] r True by simp
    show ?thesis
    proof (cases "item = PgnError \<or> item = PgnResult")
      case True
      then show ?thesis
        using \<open>status s = Ok \<and> int (length (m_moves g)) < maxMoves\<close> r bound
        by (auto simp add: parse_loop_step)
    next
      case False
      show ?thesis
      proof (cases "item = PgnTag")
        case True
        then show ?thesis
          using \<open>status s = Ok \<and> int (length (m_moves g)) < maxMoves\<close> r bound
            "1.IH"(1) [OF _ r [symmetric] refl refl]
          by (simp add: parse_loop_step)
      next
        case notTag: False
        then show ?thesis
          using \<open>status s = Ok \<and> int (length (m_moves g)) < maxMoves\<close> r bound False
            "1.IH"(2) [OF _ r [symmetric] refl refl]
          by (simp add: parse_loop_step)
      qed
    qed
  next
    case False
    then show ?thesis
      using "1.prems" by (simp add: parse_loop_exit)
  qed
qed

subsection \<open>The variant of a parsed game\<close>

lemma dispatch_variant: "m_variant (fst (snd (dispatch B g b it s0))) = m_variant g"
  by (simp add: dispatch_def dispatchTag_def dispatchMove_def Let_def)

lemma readItem_variant: "m_variant (fst (snd (readItem B g s b))) = m_variant g"
  by (cases "scan_loop g locals0 (skipWhiteSpace s)")
     (simp_all add: readItem_Done readItem_Early dispatch_variant)

lemma parse_loop_variant: "m_variant (fst (parse_loop B maxMoves g s b)) = m_variant g"
proof (induction B maxMoves g s b rule: parse_loop.induct)
  case (1 B maxMoves g s b)
  show ?case
  proof (cases "status s = Ok \<and> int (length (m_moves g)) < maxMoves")
    case True
    obtain item g' s' b' where r: "readItem B g s b = (item, g', s', b')"
      by (metis prod_cases4)
    have same: "m_variant g' = m_variant g"
      using readItem_variant [of B g s b] r by simp
    show ?thesis
    proof (cases "item = PgnError \<or> item = PgnResult")
      case True
      then show ?thesis
        using \<open>status s = Ok \<and> int (length (m_moves g)) < maxMoves\<close> r same
        by (auto simp add: parse_loop_step)
    next
      case False
      show ?thesis
      proof (cases "item = PgnTag")
        case True
        then show ?thesis
          using \<open>status s = Ok \<and> int (length (m_moves g)) < maxMoves\<close> r same
            "1.IH"(1) [OF _ r [symmetric] refl refl]
          by (simp add: parse_loop_step)
      next
        case notTag: False
        then show ?thesis
          using \<open>status s = Ok \<and> int (length (m_moves g)) < maxMoves\<close> r same False
            "1.IH"(2) [OF _ r [symmetric] refl refl]
          by (simp add: parse_loop_step)
      qed
    qed
  next
    case False
    then show ?thesis by (simp add: parse_loop_exit)
  qed
qed

lemma built_capablanca_not_empty:
  assumes "built B g" and "m_variant g = CapablancaChess"
  shows "\<not> m_isEmpty g"
  using assms
proof cases
  case (from_game game)
  then show ?thesis by (simp add: PgnGame_game_def)
next
  case (from_stream s maxMoves)
  then have "m_variant g = StandardChess"
    by (simp add: parsedGame_def PgnGame_stream_def parse_loop_variant emptyGame_def)
  then show ?thesis using assms(2) by simp
qed

subsection \<open>Numeric annotation glyphs\<close>

lemma toInt_Nil: "toInt [] = None"
  by (simp add: toInt_def trimmed_def)

subsection \<open>The move text of the serializer\<close>

lemma write_moves_plies:
  "i \<le> length ms \<Longrightarrow>
   write_moves B (boardBefore B b0 ms i) i (drop i ms)
   = concat (map (plyText B b0 ms) [i..<length ms])"
proof (induction "length ms - i" arbitrary: i)
  case 0
  then show ?case by simp
next
  case (Suc n)
  then have less: "i < length ms" by simp
  have step: "boardBefore B b0 ms (Suc i) = makeMove B (boardBefore B b0 ms i) (ms ! i)"
    using less by (simp add: boardBefore_def take_Suc_conv_app_nth)
  have IH: "write_moves B (boardBefore B b0 ms (Suc i)) (Suc i) (drop (Suc i) ms)
            = concat (map (plyText B b0 ms) [Suc i..<length ms])"
    using Suc.hyps(1) [of "Suc i"] Suc.hyps(2) less by simp
  have "write_moves B (boardBefore B b0 ms i) i (drop i ms)
        = write_moves B (boardBefore B b0 ms i) i (ms ! i # drop (Suc i) ms)"
    using less by (simp add: Cons_nth_drop_Suc)
  also have "\<dots> = plyText B b0 ms i
                  @ write_moves B (boardBefore B b0 ms (Suc i)) (Suc i) (drop (Suc i) ms)"
    by (simp add: plyText_def step dvd_eq_mod_eq_0 even_iff_mod_2_eq_zero)
  also have "\<dots> = concat (map (plyText B b0 ms) [i..<length ms])"
    using less IH by (simp add: upt_conv_Cons)
  finally show ?case .
qed

section \<open>Reading back what write wrote\<close>

subsection \<open>Tokens and tags under the loop\<close>

lemma getChar_Cons:
  "unread s = c # cs \<Longrightarrow> fst (getChar s) = c \<and> unread (snd (getChar s)) = cs
     \<and> status (snd (getChar s)) = status s"
  by (simp add: getChar_def)

lemma isSpace_line_break: "isSpace (CHR 0x0A)" "isSpace (CHR 0x0D)" "isSpace (CHR '' '')"
  by (simp_all add: isSpace_def)

lemma isSpace_not_special:
  assumes "isSpace d"
  shows "d \<noteq> CHR ''[''" "d \<noteq> CHR ''(''" "d \<noteq> CHR ''{''" "d \<noteq> nullChar" "d \<noteq> CHR ''.''"
  using assms by (auto simp add: isSpace_def nullChar_def)

lemma body_plain:
  assumes "\<not> m_isEmpty g" and "unread s = c # cs" and "openingBracket st = nullChar"
    and "closingBracket st = nullChar" and "str st \<noteq> []"
    and "c \<noteq> CHR ''[''" and "c \<noteq> CHR ''(''" and "c \<noteq> CHR ''{''" and "c \<noteq> nullChar"
    and "c \<noteq> CHR 0x0A" and "c \<noteq> CHR 0x0D"
  shows "body g st s = accumulate c st (snd (getChar s))"
  using assms getChar_Cons [OF assms(2)]
  by (simp add: body_def Let_def classify_def brackets_def openBracket_def isNull_def)

lemma body_token_char:
  assumes "\<not> m_isEmpty g" and "unread s = c # cs" and "plainChar c" and "acc \<noteq> []"
    and "it = PgnMove \<or> it = PgnMoveNumber" and "\<not> endsToken it c"
  shows "body g (inToken it acc) s = Continue (inToken it (acc @ [c])) (snd (getChar s))"
proof -
  have c: "c \<noteq> CHR ''[''" "c \<noteq> CHR ''(''" "c \<noteq> CHR ''{''" "c \<noteq> nullChar" "\<not> isSpace c"
    using assms(3) by (simp_all add: plainChar_def)
  have lb: "c \<noteq> CHR 0x0A" "c \<noteq> CHR 0x0D"
    using c(5) isSpace_line_break by auto
  have "body g (inToken it acc) s = accumulate c (inToken it acc) (snd (getChar s))"
    using body_plain [OF assms(1,2) _ _ _ c(1-4) lb, of "inToken it acc"] assms(4)
    by (simp add: inToken_def locals0_def)
  then show ?thesis
    using assms(5,6) c by (auto simp add: accumulate_def inToken_def locals0_def endsToken_def)
qed

lemma body_token_end:
  assumes "\<not> m_isEmpty g" and "unread s = d # cs" and "acc \<noteq> []"
    and "it = PgnMove \<or> it = PgnMoveNumber" and "endsToken it d"
  shows "body g (inToken it acc) s = Break (inToken it acc) (snd (getChar s))"
proof (cases "d = CHR 0x0A \<or> d = CHR 0x0D")
  case True
  then show ?thesis
    using assms(1,4) getChar_Cons [OF assms(2)]
    by (auto simp add: body_def Let_def inToken_def locals0_def)
next
  case False
  have d: "d \<noteq> CHR ''[''" "d \<noteq> CHR ''(''" "d \<noteq> CHR ''{''" "d \<noteq> nullChar"
    using assms(5) isSpace_not_special [of d] by (auto simp add: endsToken_def nullChar_def)
  have "body g (inToken it acc) s = accumulate d (inToken it acc) (snd (getChar s))"
    using body_plain [OF assms(1,2) _ _ _ d, of "inToken it acc"] assms(3) False
    by (simp add: inToken_def locals0_def)
  then show ?thesis
    using assms(4,5) d by (auto simp add: accumulate_def inToken_def locals0_def endsToken_def)
qed

lemma body_token_start:
  assumes "\<not> m_isEmpty g" and "unread s = c # cs" and "startChar c"
  shows "body g locals0 s = Continue (inToken (tokenType c) [c]) (snd (getChar s))"
proof -
  have c: "c \<noteq> CHR ''[''" "c \<noteq> CHR ''(''" "c \<noteq> CHR ''{''" "c \<noteq> nullChar" "\<not> isSpace c"
    "c \<noteq> CHR '';''" "c \<noteq> CHR ''%''" "c \<noteq> CHR ''.''" "c \<noteq> CHR ''$''"
    using assms(3) by (simp_all add: startChar_def plainChar_def)
  have lb: "c \<noteq> CHR 0x0A" "c \<noteq> CHR 0x0D"
    using c(5) isSpace_line_break by auto
  have "body g locals0 s = accumulate c (locals0\<lparr>itemType := tokenType c\<rparr>) (snd (getChar s))"
    using assms(1) c lb getChar_Cons [OF assms(2)]
    by (simp add: body_def Let_def classify_def brackets_def openBracket_def isNull_def
        locals0_def tokenType_def)
  then show ?thesis
    using c by (simp add: accumulate_def inToken_def locals0_def tokenType_def)
qed

lemma scan_token_rest:
  "\<not> m_isEmpty g \<Longrightarrow> status s = Ok \<Longrightarrow> unread s = cs @ d # rest \<Longrightarrow> list_all plainChar cs
   \<Longrightarrow> \<forall>c\<in>set cs. \<not> endsToken it c \<Longrightarrow> endsToken it d \<Longrightarrow> acc \<noteq> []
   \<Longrightarrow> it = PgnMove \<or> it = PgnMoveNumber
   \<Longrightarrow> \<exists>s'. scan_loop g (inToken it acc) s = Done (inToken it (acc @ cs)) s'
          \<and> unread s' = rest \<and> status s' = Ok"
proof (induction cs arbitrary: acc s)
  case Nil
  then have "body g (inToken it acc) s = Break (inToken it acc) (snd (getChar s))"
    using body_token_end [of g s d rest acc it] by simp
  then show ?case
    using Nil getChar_Cons [of s d rest] by (simp add: scan_loop_Ok)
next
  case (Cons c cs)
  have step: "body g (inToken it acc) s = Continue (inToken it (acc @ [c])) (snd (getChar s))"
    using Cons.prems body_token_char [of g s c "cs @ d # rest" acc it] by simp
  have next_stream: "unread (snd (getChar s)) = cs @ d # rest" "status (snd (getChar s)) = Ok"
    using Cons.prems getChar_Cons [of s c "cs @ d # rest"] by simp_all
  obtain s' where "scan_loop g (inToken it (acc @ [c])) (snd (getChar s))
      = Done (inToken it ((acc @ [c]) @ cs)) s'" "unread s' = rest" "status s' = Ok"
    using Cons.IH [of "snd (getChar s)" "acc @ [c]"] Cons.prems next_stream by auto
  then show ?case
    using step Cons.prems(2) by (simp add: scan_loop_Ok)
qed

lemma scan_token:
  assumes "\<not> m_isEmpty g" and "status s = Ok" and "unread s = (c # cs) @ d # rest"
    and "startChar c" and "list_all plainChar cs"
    and "\<forall>x\<in>set cs. \<not> endsToken (tokenType c) x" and "endsToken (tokenType c) d"
  shows "\<exists>s'. scan_loop g locals0 s = Done (inToken (tokenType c) (c # cs)) s'
          \<and> unread s' = rest \<and> status s' = Ok"
proof -
  have step: "body g locals0 s = Continue (inToken (tokenType c) [c]) (snd (getChar s))"
    using assms body_token_start [of g s c "cs @ d # rest"] by simp
  have next_stream: "unread (snd (getChar s)) = cs @ d # rest" "status (snd (getChar s)) = Ok"
    using assms getChar_Cons [of s c "cs @ d # rest"] by simp_all
  have ty: "tokenType c = PgnMove \<or> tokenType c = PgnMoveNumber"
    by (simp add: tokenType_def)
  obtain s' where "scan_loop g (inToken (tokenType c) [c]) (snd (getChar s))
      = Done (inToken (tokenType c) ([c] @ cs)) s'" "unread s' = rest" "status s' = Ok"
    using scan_token_rest [OF assms(1) next_stream(2) next_stream(1) assms(5,6,7) _ ty, of "[c]"]
    by auto
  then show ?thesis
    using step assms(2) by (simp add: scan_loop_Ok)
qed

lemma body_tag_char:
  assumes "unread s = c # cs" and "tagChar c"
  shows "body g (inTag 1 acc) s = Continue (inTag 1 (acc @ [c])) (snd (getChar s))"
  using assms getChar_Cons [OF assms(1)]
  by (auto simp add: body_def Let_def classify_def accumulate_def inTag_def isNull_def
      tagChar_def nullChar_def)

lemma body_tag_close:
  assumes "unread s = CHR '']'' # cs"
  shows "body g (inTag 1 acc) s = Break (inTag 0 acc) (snd (getChar s))"
  using assms getChar_Cons [OF assms(1)]
  by (auto simp add: body_def Let_def classify_def accumulate_def inTag_def isNull_def nullChar_def)

lemma body_tag_open:
  assumes "unread s = CHR ''['' # cs" and "m_moves g = []"
  shows "body g locals0 s = Continue (inTag 1 []) (snd (getChar s))"
  using assms getChar_Cons [OF assms(1)]
  by (auto simp add: body_def Let_def classify_def brackets_def openBracket_def accumulate_def
      inTag_def locals0_def isNull_def nullChar_def isDigit_def)

lemma scan_tag_rest:
  "status s = Ok \<Longrightarrow> unread s = cs @ CHR '']'' # rest \<Longrightarrow> list_all tagChar cs
   \<Longrightarrow> \<exists>s'. scan_loop g (inTag 1 acc) s = Done (inTag 0 (acc @ cs)) s'
          \<and> unread s' = rest \<and> status s' = Ok"
proof (induction cs arbitrary: acc s)
  case Nil
  then show ?case
    using body_tag_close [of s rest g acc] getChar_Cons [of s "CHR '']''" rest]
    by (simp add: scan_loop_Ok)
next
  case (Cons c cs)
  have step: "body g (inTag 1 acc) s = Continue (inTag 1 (acc @ [c])) (snd (getChar s))"
    using Cons.prems body_tag_char [of s c "cs @ CHR '']'' # rest" g acc] by simp
  have next_stream: "unread (snd (getChar s)) = cs @ CHR '']'' # rest"
    "status (snd (getChar s)) = Ok"
    using Cons.prems getChar_Cons [of s c "cs @ CHR '']'' # rest"] by simp_all
  obtain s' where "scan_loop g (inTag 1 (acc @ [c])) (snd (getChar s))
      = Done (inTag 0 ((acc @ [c]) @ cs)) s'" "unread s' = rest" "status s' = Ok"
    using Cons.IH [of "snd (getChar s)" "acc @ [c]"] Cons.prems next_stream by auto
  then show ?case
    using step Cons.prems(1) by (simp add: scan_loop_Ok)
qed

lemma scan_tag:
  assumes "status s = Ok" and "unread s = CHR ''['' # cs @ CHR '']'' # rest"
    and "list_all tagChar cs" and "m_moves g = []"
  shows "\<exists>s'. scan_loop g locals0 s = Done (inTag 0 cs) s' \<and> unread s' = rest \<and> status s' = Ok"
proof -
  have step: "body g locals0 s = Continue (inTag 1 []) (snd (getChar s))"
    using assms body_tag_open [of s "cs @ CHR '']'' # rest" g] by simp
  have next_stream: "unread (snd (getChar s)) = cs @ CHR '']'' # rest"
    "status (snd (getChar s)) = Ok"
    using assms getChar_Cons [of s "CHR ''[''" "cs @ CHR '']'' # rest"] by simp_all
  obtain s' where "scan_loop g (inTag 1 []) (snd (getChar s)) = Done (inTag 0 ([] @ cs)) s'"
    "unread s' = rest" "status s' = Ok"
    using scan_tag_rest [OF next_stream(2) next_stream(1) assms(3), of g "[]"] by auto
  then show ?thesis
    using step assms(1) by (simp add: scan_loop_Ok)
qed

lemma skipWhiteSpace_leading:
  assumes "unread s = ws @ c # rest" and "list_all isSpace ws" and "\<not> isSpace c"
  shows "unread (skipWhiteSpace s) = c # rest \<and> status (skipWhiteSpace s) = status s"
proof -
  have "dropWhile isSpace (ws @ c # rest) = c # rest"
    using assms(2,3) by (simp add: dropWhile_append2 list_all_iff)
  then show ?thesis
    using assms(1) by (simp add: skipWhiteSpace_def)
qed

lemma trimmed_id:
  assumes "xs \<noteq> []" and "\<not> isSpace (hd xs)" and "\<not> isSpace (last xs)"
  shows "trimmed xs = xs"
proof -
  have "dropWhile isSpace xs = xs"
    using assms(1,2) by (cases xs) simp_all
  moreover have "dropWhile isSpace (rev xs) = rev xs"
    using assms(1,3) by (cases "rev xs") (simp_all add: last_rev [symmetric] hd_rev)
  ultimately show ?thesis
    by (simp add: trimmed_def)
qed

subsection \<open>Move numbers, moves and the result token\<close>

lemma isDigit_cases:
  "isDigit c \<longleftrightarrow> c = CHR ''0'' \<or> c = CHR ''1'' \<or> c = CHR ''2'' \<or> c = CHR ''3'' \<or> c = CHR ''4''
     \<or> c = CHR ''5'' \<or> c = CHR ''6'' \<or> c = CHR ''7'' \<or> c = CHR ''8'' \<or> c = CHR ''9''"
  by (simp add: isDigit_def)

lemma isDigit_start:
  assumes "isDigit c"
  shows "startChar c" "plainChar c" "\<not> isSpace c" "\<not> endsToken PgnMoveNumber c"
    "tokenType c = PgnMoveNumber"
  using assms
  by (auto simp add: isDigit_cases startChar_def plainChar_def isSpace_def nullChar_def
      endsToken_def tokenType_def)

lemma digit_char: "n < 10 \<Longrightarrow> isDigit (''0123456789'' ! n)"
  unfolding isDigit_def by (rule nth_mem) simp

lemma number_digits: "number n \<noteq> [] \<and> list_all isDigit (number n)"
proof (induction n rule: number.induct)
  case (1 n)
  show ?case
  proof (cases "n < 10")
    case True
    then show ?thesis
      using digit_char [of n] by (simp add: number.simps [of n])
  next
    case False
    then show ?thesis
      using "1.IH" digit_char [of "n mod 10"] by (simp add: number.simps [of n])
  qed
qed

lemma digits_not_result: "list_all isDigit t \<Longrightarrow> \<not> isResultToken t"
  by (auto simp add: isResultToken_def isDigit_def)

lemma plain_not_space: "list_all plainChar cs \<Longrightarrow> \<forall>x\<in>set cs. \<not> endsToken PgnMove x"
  by (auto simp add: list_all_iff plainChar_def endsToken_def)

lemma trimmed_token:
  assumes "t \<noteq> []" and "\<forall>x\<in>set t. \<not> isSpace x"
  shows "trimmed t = t"
  using assms by (intro trimmed_id) simp_all

lemma readItem_number:
  assumes "\<not> m_isEmpty g" and "status s = Ok"
    and "unread s = ws @ number k @ CHR ''.'' # rest" and "list_all isSpace ws"
  shows "\<exists>s'. readItem B g s b = (PgnMoveNumber, g, s', b) \<and> unread s' = rest \<and> status s' = Ok"
proof -
  obtain c cs where num: "number k = c # cs"
    using number_digits [of k] by (cases "number k") simp_all
  have digits: "isDigit c" "list_all isDigit cs"
    using number_digits [of k] num by simp_all
  have inner: "list_all plainChar cs" "\<forall>x\<in>set cs. \<not> endsToken (tokenType c) x"
    using digits isDigit_start by (auto simp add: list_all_iff)
  have skip: "unread (skipWhiteSpace s) = (c # cs) @ CHR ''.'' # rest"
    "status (skipWhiteSpace s) = Ok"
    using skipWhiteSpace_leading [of s ws c "cs @ CHR ''.'' # rest"] assms(2,3,4) num
      isDigit_start(3) [OF digits(1)] by simp_all
  obtain s' where scan: "scan_loop g locals0 (skipWhiteSpace s) = Done (inToken PgnMoveNumber (c # cs)) s'"
    and s': "unread s' = rest" "status s' = Ok"
    using scan_token [OF assms(1) skip(2) skip(1) isDigit_start(1) [OF digits(1)] inner]
      isDigit_start(5) [OF digits(1)] by (auto simp add: endsToken_def)
  have "\<forall>x\<in>set (c # cs). \<not> isSpace x"
    using digits isDigit_start(3) by (auto simp add: list_all_iff)
  then have trim: "trimmed (c # cs) = c # cs"
    by (intro trimmed_token) simp_all
  have "\<not> isResultToken (c # cs)"
    using digits digits_not_result [of "c # cs"] by simp
  then have "dispatch B g b PgnMoveNumber (c # cs) = (PgnMoveNumber, g, b)"
    using trim by (simp add: dispatch_def)
  then show ?thesis
    using s' by (simp add: readItem_Done [OF scan] inToken_def)
qed

lemma readItem_move:
  assumes "\<not> m_isEmpty g" and "status s = Ok"
    and "unread s = ws @ t @ CHR '' '' # rest" and "list_all isSpace ws" and "sanToken t"
    and "isLegalMove B b (moveFromString B b t)"
  shows "\<exists>s'. readItem B g s b
           = (PgnMove, g\<lparr>m_moves := m_moves g @ [moveFromString B b t]\<rparr>, s',
              makeMove B b (moveFromString B b t))
         \<and> unread s' = rest \<and> status s' = Ok"
proof -
  obtain c cs where t: "t = c # cs"
    using assms(5) by (cases t) (simp_all add: sanToken_def)
  have c: "startChar c" "\<not> isDigit c" "list_all plainChar cs" "\<not> isResultToken t"
    using assms(5) t by (simp_all add: sanToken_def)
  have ty: "tokenType c = PgnMove"
    using c(2) by (simp add: tokenType_def)
  have nospace: "\<not> isSpace c" "\<forall>x\<in>set cs. \<not> isSpace x"
    using c(1,3) by (auto simp add: startChar_def plainChar_def list_all_iff)
  have skip: "unread (skipWhiteSpace s) = (c # cs) @ CHR '' '' # rest"
    "status (skipWhiteSpace s) = Ok"
    using skipWhiteSpace_leading [of s ws c "cs @ CHR '' '' # rest"] assms(2,3,4) t nospace(1)
    by simp_all
  obtain s' where scan: "scan_loop g locals0 (skipWhiteSpace s) = Done (inToken PgnMove (c # cs)) s'"
    and s': "unread s' = rest" "status s' = Ok"
    using scan_token [OF assms(1) skip(2) skip(1) c(1) c(3)] plain_not_space [OF c(3)] ty
    by (auto simp add: endsToken_def isSpace_line_break)
  have trim: "trimmed (c # cs) = c # cs"
    using nospace by (intro trimmed_token) simp_all
  have "dispatch B g b PgnMove (c # cs)
        = (PgnMove, g\<lparr>m_moves := m_moves g @ [moveFromString B b t]\<rparr>,
           makeMove B b (moveFromString B b t))"
    using trim c(4) assms(1,6) t by (simp add: dispatch_def dispatchMove_def Let_def)
  then show ?thesis
    using s' by (simp add: readItem_Done [OF scan] inToken_def)
qed

lemma result_chars:
  "startChar (CHR ''*'')" "startChar (CHR ''1'')" "startChar (CHR ''0'')"
  "plainChar (CHR ''-'')" "plainChar (CHR ''/'')" "plainChar (CHR ''0'')" "plainChar (CHR ''1'')"
  "plainChar (CHR ''2'')"
  by (simp_all add: startChar_def plainChar_def isSpace_def nullChar_def)

lemma result_token_scan:
  assumes "isResultToken t"
  shows "\<exists>c cs. t = c # cs \<and> startChar c \<and> list_all plainChar cs
           \<and> (\<forall>x\<in>set cs. \<not> endsToken (tokenType c) x) \<and> \<not> isSpace c \<and> (\<forall>x\<in>set cs. \<not> isSpace x)"
proof -
  consider "t = ''*''" | "t = ''1/2-1/2''" | "t = ''1-0''" | "t = ''0-1''"
    using assms by (auto simp add: isResultToken_def)
  then show ?thesis
  proof cases
    case 1
    then show ?thesis
      by (simp add: result_chars) (simp add: isSpace_def)
  next
    case 2
    then show ?thesis
      by (simp add: result_chars) (simp add: isSpace_def endsToken_def)
  next
    case 3
    then show ?thesis
      by (simp add: result_chars) (simp add: isSpace_def endsToken_def)
  next
    case 4
    then show ?thesis
      by (simp add: result_chars) (simp add: isSpace_def endsToken_def)
  qed
qed

lemma readItem_result:
  assumes "\<not> m_isEmpty g" and "status s = Ok"
    and "unread s = ws @ t @ CHR 0x0A # rest" and "list_all isSpace ws" and "isResultToken t"
  shows "\<exists>s'. readItem B g s b = (PgnResult, g\<lparr>m_result := resultFromString t\<rparr>, s', b)"
proof -
  obtain c cs where t: "t = c # cs" and c: "startChar c" "list_all plainChar cs"
    "\<forall>x\<in>set cs. \<not> endsToken (tokenType c) x" "\<not> isSpace c" "\<forall>x\<in>set cs. \<not> isSpace x"
    using result_token_scan [OF assms(5)] by blast
  have skip: "unread (skipWhiteSpace s) = (c # cs) @ CHR 0x0A # rest"
    "status (skipWhiteSpace s) = Ok"
    using skipWhiteSpace_leading [of s ws c "cs @ CHR 0x0A # rest"] assms(2,3,4) t c(4)
    by simp_all
  obtain s' where scan: "scan_loop g locals0 (skipWhiteSpace s) = Done (inToken (tokenType c) (c # cs)) s'"
    using scan_token [OF assms(1) skip(2) skip(1) c(1,2,3)]
    by (auto simp add: endsToken_def isSpace_line_break)
  have trim: "trimmed (c # cs) = c # cs"
    using c(4,5) by (intro trimmed_token) simp_all
  have "dispatch B g b (tokenType c) (c # cs) = (PgnResult, g\<lparr>m_result := resultFromString t\<rparr>, b)"
    using trim assms(5) t by (simp add: dispatch_def tokenType_def)
  then show ?thesis
    by (simp add: readItem_Done [OF scan] inToken_def)
qed

subsection \<open>Tag pairs\<close>

lemma tagLine_tagBody: "tagLine name val = CHR ''['' # tagBody name val @ CHR '']'' # [CHR 0x0A]"
  by (simp add: tagLine_def tagBody_def)

lemma section_tagBody:
  assumes "CHR '' '' \<notin> set name"
  shows "section_first (tagBody name val) = name"
    and "removeQuotes (section_rest (tagBody name val)) = removeQuotes val"
proof -
  have "takeWhile (\<lambda>c. c \<noteq> CHR '' '') (name @ CHR '' '' # xs) = name" for xs
    using assms by (induction name) auto
  then show "section_first (tagBody name val) = name"
    by (simp add: section_first_def tagBody_def)
  have "dropWhile (\<lambda>c. c \<noteq> CHR '' '') (name @ CHR '' '' # xs) = CHR '' '' # xs" for xs
    using assms by (induction name) auto
  then show "removeQuotes (section_rest (tagBody name val)) = removeQuotes val"
    by (simp add: section_rest_def tagBody_def removeQuotes_def)
qed

lemma removeQuotes_id: "CHR 0x22 \<notin> set v \<Longrightarrow> removeQuotes v = v"
  unfolding removeQuotes_def by (rule filter_True) auto

lemma tagBody_chars:
  assumes "tagName name" and "list_all tagChar val"
  shows "list_all tagChar (tagBody name val)" and "trimmed (tagBody name val) = tagBody name val"
    and "tagBody name val \<noteq> []"
proof -
  show "list_all tagChar (tagBody name val)"
    using assms by (simp add: tagBody_def tagName_def tagChar_def)
  have "hd (tagBody name val) = hd name" "last (tagBody name val) = CHR 0x22"
    using assms(1) by (simp_all add: tagBody_def tagName_def)
  then show "trimmed (tagBody name val) = tagBody name val"
    using assms(1) by (intro trimmed_id) (simp_all add: tagBody_def tagName_def isSpace_def)
  show "tagBody name val \<noteq> []"
    by (simp add: tagBody_def)
qed

lemma readItem_tag:
  assumes "status s = Ok" and "unread s = ws @ tagLine name val @ rest" and "list_all isSpace ws"
    and "m_moves g = []" and "tagName name" and "list_all tagChar val"
  shows "\<exists>s'. readItem B g s b
           = (fst (dispatchTag B g b (tagBody name val)),
              fst (snd (dispatchTag B g b (tagBody name val))), s',
              snd (snd (dispatchTag B g b (tagBody name val))))
         \<and> unread s' = CHR 0x0A # rest \<and> status s' = Ok"
proof -
  have bracket: "\<not> isSpace (CHR ''['')" by (simp add: isSpace_def)
  have skip: "unread (skipWhiteSpace s) = CHR ''['' # tagBody name val @ CHR '']'' # CHR 0x0A # rest"
    "status (skipWhiteSpace s) = Ok"
    using skipWhiteSpace_leading [of s ws "CHR ''[''" "tagBody name val @ CHR '']'' # CHR 0x0A # rest"]
      assms(1,2,3) bracket by (simp_all add: tagLine_tagBody)
  obtain s' where scan: "scan_loop g locals0 (skipWhiteSpace s) = Done (inTag 0 (tagBody name val)) s'"
    and s': "unread s' = CHR 0x0A # rest" "status s' = Ok"
    using scan_tag [OF skip(2) skip(1) tagBody_chars(1) [OF assms(5,6)] assms(4)] by auto
  have "dispatch B g b PgnTag (tagBody name val) = dispatchTag B g b (tagBody name val)"
    using tagBody_chars(2,3) [OF assms(5,6)] by (simp add: dispatch_def)
  then show ?thesis
    using s' by (simp add: readItem_Done [OF scan] inTag_def)
qed

lemma dispatchTag_moves: "m_moves (fst (snd (dispatchTag B g b t))) = m_moves g"
  by (simp add: dispatchTag_def Let_def)

lemma parse_loop_tag:
  assumes "status s = Ok" and "unread s = ws @ tagLine name val @ rest" and "list_all isSpace ws"
    and "m_moves g = []" and "tagName name" and "list_all tagChar val" and "0 < maxMoves"
    and "dispatchTag B g b (tagBody name val) = (PgnTag, g', b')"
  shows "\<exists>s'. unread s' = CHR 0x0A # rest \<and> status s' = Ok
           \<and> parse_loop B maxMoves g s b = parse_loop B maxMoves (g'\<lparr>m_isEmpty := False\<rparr>) s' b'"
proof -
  obtain s' where "readItem B g s b = (PgnTag, g', s', b')" "unread s' = CHR 0x0A # rest"
    "status s' = Ok"
    using readItem_tag [OF assms(1-6), of B b] assms(8) by auto
  then show ?thesis
    using assms(1,4,7) by (auto simp add: parse_loop_step)
qed

lemma parse_loop_number:
  assumes "\<not> m_isEmpty g" and "status s = Ok"
    and "unread s = ws @ number k @ CHR ''.'' # rest" and "list_all isSpace ws"
    and "int (length (m_moves g)) < maxMoves"
  shows "\<exists>s'. unread s' = rest \<and> status s' = Ok
           \<and> parse_loop B maxMoves g s b = parse_loop B maxMoves g s' b"
proof -
  obtain s' where "readItem B g s b = (PgnMoveNumber, g, s', b)" "unread s' = rest" "status s' = Ok"
    using readItem_number [OF assms(1-4), of B b] by auto
  then show ?thesis
    using assms(2,5) by (auto simp add: parse_loop_step)
qed

lemma parse_loop_move:
  assumes "\<not> m_isEmpty g" and "status s = Ok"
    and "unread s = ws @ t @ CHR '' '' # rest" and "list_all isSpace ws" and "sanToken t"
    and "isLegalMove B b (moveFromString B b t)" and "int (length (m_moves g)) < maxMoves"
  shows "\<exists>s'. unread s' = rest \<and> status s' = Ok
           \<and> parse_loop B maxMoves g s b
             = parse_loop B maxMoves (g\<lparr>m_moves := m_moves g @ [moveFromString B b t]\<rparr>) s'
                 (makeMove B b (moveFromString B b t))"
proof -
  obtain s' where "readItem B g s b
      = (PgnMove, g\<lparr>m_moves := m_moves g @ [moveFromString B b t]\<rparr>, s',
         makeMove B b (moveFromString B b t))" "unread s' = rest" "status s' = Ok"
    using readItem_move [OF assms(1-6)] by auto
  then show ?thesis
    using assms(2,7) by (auto simp add: parse_loop_step)
qed

lemma parse_loop_result:
  assumes "\<not> m_isEmpty g" and "status s = Ok"
    and "unread s = ws @ t @ CHR 0x0A # rest" and "list_all isSpace ws" and "isResultToken t"
    and "int (length (m_moves g)) < maxMoves"
  shows "fst (parse_loop B maxMoves g s b) = g\<lparr>m_result := resultFromString t\<rparr>"
proof -
  obtain s' where "readItem B g s b = (PgnResult, g\<lparr>m_result := resultFromString t\<rparr>, s', b)"
    using readItem_result [OF assms(1-5), of B b] by auto
  then show ?thesis
    using assms(2,6) by (simp add: parse_loop_step)
qed

lemma parse_loop_moves:
  "\<not> m_isEmpty g \<Longrightarrow> status s = Ok \<Longrightarrow> list_all isSpace ws
   \<Longrightarrow> unread s = ws @ write_moves B b i ms @ res @ [CHR 0x0A, CHR 0x0A]
   \<Longrightarrow> isResultToken res \<Longrightarrow> replays B b ms
   \<Longrightarrow> int (length (m_moves g) + length ms) < maxMoves
   \<Longrightarrow> fst (parse_loop B maxMoves g s b)
       = g\<lparr>m_moves := m_moves g @ reparsed B b ms, m_result := resultFromString res\<rparr>"
proof (induction ms arbitrary: g s b i ws)
  case Nil
  then show ?case
    using parse_loop_result [of g s ws res "[CHR 0x0A]" maxMoves B b] by simp
next
  case (Cons m ms)
  let ?t = "moveString B b m"
  let ?m' = "moveFromString B b ?t"
  let ?R = "write_moves B (makeMove B b m) (Suc i) ms @ res @ [CHR 0x0A, CHR 0x0A]"
  have tok: "sanToken ?t" "isLegalMove B b ?m'" "makeMove B b ?m' = makeMove B b m"
    "replays B (makeMove B b m) ms"
    using Cons.prems(6) by simp_all
  have bound: "int (length (m_moves g)) < maxMoves"
    using Cons.prems(7) by simp
  obtain ws1 s1 where s1: "list_all isSpace ws1" "unread s1 = ws1 @ ?t @ CHR '' '' # ?R"
    "status s1 = Ok" "parse_loop B maxMoves g s b = parse_loop B maxMoves g s1 b"
  proof (cases "i mod 2 = 0")
    case True
    let ?ws = "ws @ (if i mod 8 = 0 then [CHR 0x0A] else [])"
    have "list_all isSpace ?ws"
      using Cons.prems(3) by (simp add: isSpace_line_break)
    moreover have "unread s = ?ws @ number (i div 2 + 1) @ CHR ''.'' # (CHR '' '' # ?t @ CHR '' '' # ?R)"
      using Cons.prems(4) True by simp
    ultimately obtain s' where "unread s' = CHR '' '' # ?t @ CHR '' '' # ?R" "status s' = Ok"
      "parse_loop B maxMoves g s b = parse_loop B maxMoves g s' b"
      using parse_loop_number [OF Cons.prems(1,2) _ _ bound, of ?ws "i div 2 + 1" _ B b] by blast
    then show ?thesis
      using that [of "[CHR '' '']" s'] by (simp add: isSpace_line_break)
  next
    case False
    then have "i mod 8 \<noteq> 0" by presburger
    then have "unread s = ws @ ?t @ CHR '' '' # ?R"
      using Cons.prems(4) False by simp
    then show ?thesis
      using that [of ws s] Cons.prems(2,3) by simp
  qed
  obtain s2 where s2: "unread s2 = ?R" "status s2 = Ok"
    "parse_loop B maxMoves g s1 b
     = parse_loop B maxMoves (g\<lparr>m_moves := m_moves g @ [?m']\<rparr>) s2 (makeMove B b ?m')"
    using parse_loop_move [OF Cons.prems(1) s1(3) s1(2) s1(1) tok(1,2) bound] by blast
  have "fst (parse_loop B maxMoves (g\<lparr>m_moves := m_moves g @ [?m']\<rparr>) s2 (makeMove B b m))
        = g\<lparr>m_moves := m_moves g @ [?m']\<rparr>
           \<lparr>m_moves := m_moves (g\<lparr>m_moves := m_moves g @ [?m']\<rparr>) @ reparsed B (makeMove B b m) ms,
            m_result := resultFromString res\<rparr>"
    using Cons.IH [of "g\<lparr>m_moves := m_moves g @ [?m']\<rparr>" s2 "[]" "makeMove B b m" "Suc i"]
      Cons.prems(1,5,7) s2(1,2) tok(4) by simp
  then show ?case
    using s1(4) s2(3) tok(3) by simp
qed

subsection \<open>The written game, item by item\<close>

lemma tagName_known:
  "tagName ''Date''" "tagName ''White''" "tagName ''Black''" "tagName ''Result''"
  "tagName ''Variant''" "tagName ''FEN''"
  by (simp_all add: tagName_def tagChar_def isSpace_def)

lemma dispatchTag_ignored:
  "dispatchTag B g b (tagBody ''Date'' v) = (PgnTag, g, b)"
  "dispatchTag B g b (tagBody ''Variant'' v) = (PgnTag, g, b)"
  by (simp_all add: dispatchTag_def section_tagBody Let_def)

lemma dispatchTag_stored:
  assumes "CHR 0x22 \<notin> set v"
  shows "dispatchTag B g b (tagBody ''White'' v) = (PgnTag, g\<lparr>m_whitePlayer := v\<rparr>, b)"
    and "dispatchTag B g b (tagBody ''Black'' v) = (PgnTag, g\<lparr>m_blackPlayer := v\<rparr>, b)"
    and "dispatchTag B g b (tagBody ''Result'' v) = (PgnTag, g\<lparr>m_result := resultFromString v\<rparr>, b)"
    and "fst (setBoard B b v) \<Longrightarrow>
         dispatchTag B g b (tagBody ''FEN'' v) = (PgnTag, g\<lparr>m_fen := v\<rparr>, snd (setBoard B b v))"
  using assms by (simp_all add: dispatchTag_def section_tagBody removeQuotes_id Let_def)

lemma resultToString_token: "isResultToken (resultToString r)"
  by (cases r) (simp_all add: isResultToken_def)

lemma resultToString_safe: "tagSafe (resultToString r)"
  by (cases r) (simp_all add: tagSafe_def tagChar_def)

lemma resultToString_round: "resultToString (resultFromString (resultToString r)) = resultToString r"
  by (cases r) (simp_all add: resultFromString_def)

lemma resultFromString_round:
  "r = NoResult \<or> r = WhiteMates \<or> r = BlackMates \<or> r = DrawByAgreement
   \<Longrightarrow> resultFromString (resultToString r) = r"
  by (auto simp add: resultFromString_def)

lemma not_empty_update: "\<not> m_isEmpty g \<Longrightarrow> g\<lparr>m_isEmpty := False\<rparr> = g"
  by (cases g) simp

lemma sanList_reparsed:
  "replays B b ms \<Longrightarrow> sanList B b (reparsed B b ms) = sanList B b ms
     \<and> length (reparsed B b ms) = length ms"
  by (induction ms arbitrary: b) simp_all

lemma parse_loop_optional_tag:
  assumes "status s = Ok" and "unread s = ws @ (if c then tagLine name val else []) @ rest"
    and "list_all isSpace ws" and "m_moves g = []" and "\<not> m_isEmpty g'" and "tagName name"
    and "list_all tagChar val" and "0 < maxMoves"
    and "c \<Longrightarrow> dispatchTag B g b (tagBody name val) = (PgnTag, g', b')"
    and "\<not> c \<Longrightarrow> g' = g \<and> b' = b"
  shows "\<exists>ws' s'. list_all isSpace ws' \<and> unread s' = ws' @ rest \<and> status s' = Ok
           \<and> parse_loop B maxMoves g s b = parse_loop B maxMoves g' s' b'"
proof (cases c)
  case True
  then obtain s' where "unread s' = CHR 0x0A # rest" "status s' = Ok"
    "parse_loop B maxMoves g s b = parse_loop B maxMoves (g'\<lparr>m_isEmpty := False\<rparr>) s' b'"
    using parse_loop_tag [OF assms(1) _ assms(3,4,6,7,8) assms(9), of rest] assms(2) by auto
  then show ?thesis
    using not_empty_update [OF assms(5)]
    by (intro exI [of _ "[CHR 0x0A]"] exI [of _ s']) (simp add: isSpace_line_break)
next
  case False
  then show ?thesis
    using assms(1,2,3,10) by (intro exI [of _ ws] exI [of _ s]) simp
qed

lemma parse_written_game:
  assumes ne: "\<not> m_isEmpty g" and var: "m_variant g = StandardChess"
    and white: "tagSafe (m_whitePlayer g)" and black: "tagSafe (m_blackPlayer g)"
    and date: "list_all tagChar date"
    and fen: "if useFen B g
              then tagSafe (m_fen g)
                   \<and> setBoard B (startBoard B) (m_fen g)
                       = (True, snd (setBoard B (newBoard B StandardChess) (m_fen g)))
              else fenString B (startBoard B) = m_fen g"
    and rep: "replays B (snd (setBoard B (newBoard B StandardChess) (m_fen g))) (m_moves g)"
    and max: "int (length (m_moves g)) < maxMoves"
  shows "parsedGame B (textStream (pgnText B date g)) maxMoves
         = \<lparr>m_whitePlayer = m_whitePlayer g, m_blackPlayer = m_blackPlayer g,
            m_moves = reparsed B (snd (setBoard B (newBoard B StandardChess) (m_fen g))) (m_moves g),
            m_fen = m_fen g, m_variant = StandardChess, m_isRandomVariant = False,
            m_result = resultFromString (resultToString (m_result g)),
            m_isEmpty = False, m_round = 0\<rparr>"
proof -
  let ?bw = "snd (setBoard B (newBoard B StandardChess) (m_fen g))"
  let ?res = "resultToString (m_result g)"
  let ?M = "write_moves B ?bw 0 (m_moves g) @ ?res @ [CHR 0x0A, CHR 0x0A]"
  let ?V = "if m_isRandomVariant g then tagLine ''Variant'' ''Fischerandom'' else []"
  let ?F = "if useFen B g then tagLine ''FEN'' (m_fen g) else []"
  let ?g0 = "emptyGame (fenString B (startBoard B))"
  let ?b0 = "startBoard B"
  have pos: "0 < maxMoves" using max by simp
  have written: "pgnText B date g
      = tagLine ''Date'' date @ tagLine ''White'' (m_whitePlayer g) @ tagLine ''Black'' (m_blackPlayer g)
        @ tagLine ''Result'' ?res @ ?V @ ?F @ ?M"
    using var by (simp add: pgnText_def write_tags_def variantString_def)
  have q: "CHR 0x22 \<notin> set (m_whitePlayer g)" "CHR 0x22 \<notin> set (m_blackPlayer g)"
    "CHR 0x22 \<notin> set ?res" "list_all tagChar (m_whitePlayer g)"
    "list_all tagChar (m_blackPlayer g)" "list_all tagChar ?res"
    using white black resultToString_safe [of "m_result g"] by (simp_all add: tagSafe_def)
  let ?s0 = "textStream (pgnText B date g)"
  have s0: "status ?s0 = Ok"
    "unread ?s0 = [] @ tagLine ''Date'' date @ (tagLine ''White'' (m_whitePlayer g)
       @ tagLine ''Black'' (m_blackPlayer g) @ tagLine ''Result'' ?res @ ?V @ ?F @ ?M)"
    by (simp_all add: textStream_def written)
  let ?g1 = "?g0\<lparr>m_isEmpty := False\<rparr>"
  obtain s1 where s1: "unread s1 = [CHR 0x0A] @ tagLine ''White'' (m_whitePlayer g)
       @ (tagLine ''Black'' (m_blackPlayer g) @ tagLine ''Result'' ?res @ ?V @ ?F @ ?M)"
    "status s1 = Ok" "parse_loop B maxMoves ?g0 ?s0 ?b0 = parse_loop B maxMoves ?g1 s1 ?b0"
    using parse_loop_tag [OF s0(1) s0(2) _ _ tagName_known(1) date pos dispatchTag_ignored(1),
        of ?g0 B ?b0]
    by (auto simp add: emptyGame_def)
  let ?g2 = "?g1\<lparr>m_whitePlayer := m_whitePlayer g\<rparr>"
  obtain s2 where s2: "unread s2 = [CHR 0x0A] @ tagLine ''Black'' (m_blackPlayer g)
       @ (tagLine ''Result'' ?res @ ?V @ ?F @ ?M)"
    "status s2 = Ok" "parse_loop B maxMoves ?g1 s1 ?b0 = parse_loop B maxMoves ?g2 s2 ?b0"
    using parse_loop_tag [OF s1(2) s1(1) _ _ tagName_known(2) q(4) pos
        dispatchTag_stored(1) [OF q(1)], of ?g1 B ?b0]
    by (auto simp add: emptyGame_def isSpace_line_break)
  let ?g3 = "?g2\<lparr>m_blackPlayer := m_blackPlayer g\<rparr>"
  obtain s3 where s3: "unread s3 = [CHR 0x0A] @ tagLine ''Result'' ?res @ (?V @ ?F @ ?M)"
    "status s3 = Ok" "parse_loop B maxMoves ?g2 s2 ?b0 = parse_loop B maxMoves ?g3 s3 ?b0"
    using parse_loop_tag [OF s2(2) s2(1) _ _ tagName_known(3) q(5) pos
        dispatchTag_stored(2) [OF q(2)], of ?g2 B ?b0]
    by (auto simp add: emptyGame_def isSpace_line_break)
  let ?g4 = "?g3\<lparr>m_result := resultFromString ?res\<rparr>"
  obtain s4 where s4: "unread s4 = [CHR 0x0A] @ ?V @ (?F @ ?M)"
    "status s4 = Ok" "parse_loop B maxMoves ?g3 s3 ?b0 = parse_loop B maxMoves ?g4 s4 ?b0"
    using parse_loop_tag [OF s3(2) s3(1) _ _ tagName_known(4) q(6) pos
        dispatchTag_stored(3) [OF q(3)], of ?g3 B ?b0]
    by (auto simp add: emptyGame_def isSpace_line_break)
  have fr: "list_all tagChar ''Fischerandom''"
    by (simp add: tagChar_def)
  obtain ws5 s5 where s5: "list_all isSpace ws5" "unread s5 = ws5 @ ?F @ ?M" "status s5 = Ok"
    "parse_loop B maxMoves ?g4 s4 ?b0 = parse_loop B maxMoves ?g4 s5 ?b0"
    using parse_loop_optional_tag [OF s4(2) s4(1) _ _ _ tagName_known(5) fr pos, of ?g4 ?g4 B ?b0 ?b0]
    by (auto simp add: emptyGame_def isSpace_line_break dispatchTag_ignored)
  let ?g6 = "?g4\<lparr>m_fen := m_fen g\<rparr>"
  have fen_tag: "list_all tagChar (m_fen g)"
    "dispatchTag B ?g4 ?b0 (tagBody ''FEN'' (m_fen g)) = (PgnTag, ?g6, ?bw)" if "useFen B g"
    using that fen dispatchTag_stored(4) [of "m_fen g" B ?b0 ?g4]
    by (simp_all add: tagSafe_def)
  have no_fen_tag: "?g6 = ?g4" "?bw = ?b0" if "\<not> useFen B g"
    using that fen var by (simp_all add: useFen_def emptyGame_def startBoard_def)
  obtain ws6 s6 where s6: "list_all isSpace ws6" "unread s6 = ws6 @ ?M" "status s6 = Ok"
    "parse_loop B maxMoves ?g4 s5 ?b0 = parse_loop B maxMoves ?g6 s6 ?bw"
  proof (cases "useFen B g")
    case True
    obtain s' where "unread s' = CHR 0x0A # ?M" "status s' = Ok"
      "parse_loop B maxMoves ?g4 s5 ?b0 = parse_loop B maxMoves (?g6\<lparr>m_isEmpty := False\<rparr>) s' ?bw"
      using parse_loop_tag [OF s5(3) _ s5(1) _ tagName_known(6) fen_tag(1) [OF True] pos
          fen_tag(2) [OF True], of ?M] s5(2) True
      by (auto simp add: emptyGame_def)
    then show ?thesis
      using that [of "[CHR 0x0A]" s'] by (simp add: isSpace_line_break emptyGame_def)
  next
    case False
    show ?thesis
    proof (rule that [of ws5 s5])
      show "list_all isSpace ws5" by (rule s5(1))
      show "unread s5 = ws5 @ ?M" using s5(2) False by simp
      show "status s5 = Ok" by (rule s5(3))
      show "parse_loop B maxMoves ?g4 s5 ?b0 = parse_loop B maxMoves ?g6 s5 ?bw"
        by (simp only: no_fen_tag [OF False])
    qed
  qed
  have "fst (parse_loop B maxMoves ?g6 s6 ?bw)
        = ?g6\<lparr>m_moves := m_moves ?g6 @ reparsed B ?bw (m_moves g),
               m_result := resultFromString ?res\<rparr>"
    using parse_loop_moves [of ?g6 s6 ws6 B ?bw 0 "m_moves g" ?res maxMoves]
      s6(1,2,3) resultToString_token [of "m_result g"] rep max
    by (simp add: emptyGame_def)
  then have "fst (parse_loop B maxMoves ?g0 ?s0 ?b0)
        = ?g6\<lparr>m_moves := m_moves ?g6 @ reparsed B ?bw (m_moves g),
               m_result := resultFromString ?res\<rparr>"
    using s1(3) s2(3) s3(3) s4(3) s5(4) s6(4) by simp
  then show ?thesis
    by (simp add: parsedGame_def PgnGame_stream_def emptyGame_def)
qed

section \<open>The claims\<close>

subsection \<open>C2: the move count and \<open>maxMoves\<close>\<close>

text \<open>
  C2 says that for every stream and every \<open>maxMoves\<close> the parsed move sequence
  is never longer than \<open>maxMoves\<close>.  \<open>maxMoves\<close> is an \<^verbatim>\<open>int\<close>: for a negative one
  the loop body is never entered, the sequence stays empty, and its length 0
  exceeds \<open>maxMoves\<close>.
\<close>

theorem negative_maxMoves_counterexample:
  "\<not> int (length (m_moves (parsedGame toyBoard (textStream shortGameText) (- 1)))) \<le> - 1"
  by (simp add: parsedGame_def PgnGame_stream_def parse_loop_exit emptyGame_def)

text \<open>
  C2, amended: for every stream and every \<open>maxMoves \<ge> 0\<close>, the game built by the
  parsing constructor has at most \<open>maxMoves\<close> moves.  The bound is an invariant of
  the parse loop: from any state within the bound the loop ends within the
  bound, an iteration that the count check lets through ends within the bound,
  and one call of \<^verbatim>\<open>readItem\<close> appends at most one move.  For a negative
  \<open>maxMoves\<close> the loop body is never entered, from whatever state: the
  constructor leaves the stream untouched and the move sequence empty.
\<close>

theorem moves_bounded_by_maxMoves:
  "(0 \<le> maxMoves \<longrightarrow>
      int (length (m_moves (parsedGame B s maxMoves))) \<le> maxMoves
      \<and> (\<forall>g s1 b. int (length (m_moves g)) \<le> maxMoves \<longrightarrow>
            int (length (m_moves (fst (parse_loop B maxMoves g s1 b)))) \<le> maxMoves)
      \<and> (\<forall>g s1 b. int (length (m_moves g)) < maxMoves \<longrightarrow>
            int (length (m_moves (fst (snd (readItem B g s1 b))))) \<le> maxMoves)
      \<and> (\<forall>g s1 b. length (m_moves (fst (snd (readItem B g s1 b)))) \<le> Suc (length (m_moves g))))
   \<and> (maxMoves < 0 \<longrightarrow>
      (\<forall>g s1 b. parse_loop B maxMoves g s1 b = (g, s1, b))
      \<and> PgnGame_stream B s maxMoves = (emptyGame (fenString B (startBoard B)), s, startBoard B)
      \<and> m_moves (parsedGame B s maxMoves) = [])"
proof -
  have step: "int (length (m_moves (fst (snd (readItem B g s1 b))))) \<le> maxMoves"
    if "int (length (m_moves g)) < maxMoves" for g s1 b
    using that readItem_moves [of B g s1 b] by simp
  have bounded: "int (length (m_moves (parsedGame B s maxMoves))) \<le> maxMoves"
    if "0 \<le> maxMoves"
    using that
      parse_loop_bound [of "emptyGame (fenString B (startBoard B))" maxMoves B s "startBoard B"]
    by (simp add: parsedGame_def PgnGame_stream_def emptyGame_def)
  have skip: "parse_loop B maxMoves g s1 b = (g, s1, b)" if "maxMoves < 0" for g s1 b
    using that by (intro parse_loop_exit) simp
  have whole: "PgnGame_stream B s maxMoves
               = (emptyGame (fenString B (startBoard B)), s, startBoard B)"
    and none: "m_moves (parsedGame B s maxMoves) = []" if "maxMoves < 0"
    using that by (simp_all add: parsedGame_def PgnGame_stream_def skip emptyGame_def)
  show ?thesis
    using step bounded skip whole none by (simp add: parse_loop_bound readItem_moves)
qed

text \<open>
  With \<open>maxMoves = 2\<close> a game of three moves is cut after the second; with
  \<open>maxMoves = -1\<close> nothing is read.
\<close>

theorem moves_bounded_by_maxMoves_witness:
  "(0::int) \<le> 2
   \<and> m_moves (parsedGame toyBoard (textStream shortGameText) 2) = [''e4'', ''e5'']
   \<and> int (length (m_moves (parsedGame toyBoard (textStream shortGameText) 2))) \<le> 2
   \<and> int (length (m_moves oneMoveGame)) \<le> 2
   \<and> int (length (m_moves (fst (parse_loop toyBoard 2 oneMoveGame (textStream ''e5 Nf3'')
                                   (''x'', [''e4'']))))) \<le> 2
   \<and> int (length (m_moves oneMoveGame)) < 2
   \<and> int (length (m_moves (fst (snd (readItem toyBoard oneMoveGame (textStream ''e5 Nf3'')
                                         (''x'', [''e4''])))))) \<le> 2
   \<and> (- 1::int) < 0
   \<and> parse_loop toyBoard (- 1) oneMoveGame (textStream ''e5 Nf3'') (''x'', [''e4''])
       = (oneMoveGame, textStream ''e5 Nf3'', (''x'', [''e4'']))
   \<and> PgnGame_stream toyBoard (textStream shortGameText) (- 1)
       = (emptyGame (fenString toyBoard (startBoard toyBoard)), textStream shortGameText,
          startBoard toyBoard)
   \<and> m_moves (parsedGame toyBoard (textStream shortGameText) (- 1)) = []"
proof -
  have h: "(0::int) \<le> 2" by simp
  have n: "(- 1::int) < 0" by simp
  have g: "int (length (m_moves oneMoveGame)) \<le> 2" by (simp add: oneMoveGame_def)
  have g': "int (length (m_moves oneMoveGame)) < 2" by (simp add: oneMoveGame_def)
  have run: "m_moves (parsedGame toyBoard (textStream shortGameText) 2) = [''e4'', ''e5'']"
    by code_simp
  note w2 = moves_bounded_by_maxMoves [of 2 toyBoard "textStream shortGameText",
      THEN conjunct1, THEN mp, OF h]
  note wn = moves_bounded_by_maxMoves [of "- 1" toyBoard "textStream shortGameText",
      THEN conjunct2, THEN mp, OF n]
  show ?thesis
    using h n g g' run w2 wn by blast
qed

subsection \<open>C3: a tag after moves\<close>




subsection \<open>C4: the FEN tag\<close>

text \<open>
  C4: when \<^verbatim>\<open>readItem\<close> has read a tag named \<^verbatim>\<open>FEN\<close>, the starting position of the
  game becomes the tag's value.  If \<^verbatim>\<open>setBoard\<close> rejects the value the call
  returns \<^verbatim>\<open>PgnError\<close> and the parse loop ends right there, with the stream where
  the tag ended; if \<^verbatim>\<open>setBoard\<close> accepts it the call returns \<^verbatim>\<open>PgnTag\<close>, the board is
  the one \<^verbatim>\<open>setBoard\<close> has set up, and the loop goes on from there with the game
  no longer empty.
\<close>

theorem fen_tag_rejected_or_applied:
  assumes "scan_loop g locals0 (skipWhiteSpace s) = Done st s'" and "itemType st = PgnTag"
    and "section_first (trimmed (str st)) = ''FEN''"
    and "param = removeQuotes (section_rest (trimmed (str st)))"
  shows "(\<not> fst (setBoard B b param) \<longrightarrow>
            readItem B g s b = (PgnError, g\<lparr>m_fen := param\<rparr>, s', snd (setBoard B b param))
            \<and> (status s = Ok \<and> int (length (m_moves g)) < maxMoves \<longrightarrow>
                 parse_loop B maxMoves g s b
                 = (g\<lparr>m_fen := param\<rparr>, s', snd (setBoard B b param))))
    \<and> (fst (setBoard B b param) \<longrightarrow>
            readItem B g s b = (PgnTag, g\<lparr>m_fen := param\<rparr>, s', snd (setBoard B b param))
            \<and> (status s = Ok \<and> int (length (m_moves g)) < maxMoves \<longrightarrow>
                 parse_loop B maxMoves g s b =
                 parse_loop B maxMoves (g\<lparr>m_fen := param, m_isEmpty := False\<rparr>) s'
                   (snd (setBoard B b param))))"
proof -
  have nonempty: "trimmed (str st) \<noteq> []"
    using assms(3) by (auto simp add: section_first_def)
  have item: "readItem B g s b =
      ((if fst (setBoard B b param) then PgnTag else PgnError), g\<lparr>m_fen := param\<rparr>, s',
       snd (setBoard B b param))"
    using assms(2,3,4) nonempty
    by (simp add: readItem_Done [OF assms(1)] dispatch_def dispatchTag_def Let_def)
  show ?thesis
    using item by (simp add: parse_loop_step)
qed

text \<open>
  The position \<^verbatim>\<open>bad\<close> is rejected and the game ends with no move read; the
  position \<^verbatim>\<open>8/8 w\<close> is accepted and the move after it is read.
\<close>

theorem fen_tag_rejected_or_applied_witness:
  "scan_loop (emptyGame ''x'') locals0 (skipWhiteSpace badFenStream)
     = Done (fenLocals ''bad'') (afterFen ''bad'')
   \<and> itemType (fenLocals ''bad'') = PgnTag
   \<and> section_first (trimmed (str (fenLocals ''bad''))) = ''FEN''
   \<and> ''bad'' = removeQuotes (section_rest (trimmed (str (fenLocals ''bad''))))
   \<and> \<not> fst (setBoard toyBoard (''x'', []) ''bad'')
   \<and> status badFenStream = Ok \<and> int (length (m_moves (emptyGame ''x'' :: string PgnGame))) < 10
   \<and> parse_loop toyBoard 10 (emptyGame ''x'') badFenStream (''x'', [])
       = ((emptyGame ''x'')\<lparr>m_fen := ''bad''\<rparr>, afterFen ''bad'', (''x'', []))
   \<and> scan_loop (emptyGame ''x'') locals0 (skipWhiteSpace goodFenStream)
       = Done (fenLocals ''8/8 w'') (afterFen ''8/8 w'')
   \<and> itemType (fenLocals ''8/8 w'') = PgnTag
   \<and> section_first (trimmed (str (fenLocals ''8/8 w''))) = ''FEN''
   \<and> ''8/8 w'' = removeQuotes (section_rest (trimmed (str (fenLocals ''8/8 w''))))
   \<and> fst (setBoard toyBoard (''x'', []) ''8/8 w'')
   \<and> status goodFenStream = Ok
   \<and> readItem toyBoard (emptyGame ''x'') goodFenStream (''x'', [])
       = (PgnTag, (emptyGame ''x'')\<lparr>m_fen := ''8/8 w''\<rparr>, afterFen ''8/8 w'', (''8/8 w'', []))
   \<and> parse_loop toyBoard 10 (emptyGame ''x'') goodFenStream (''x'', [])
       = parse_loop toyBoard 10 ((emptyGame ''x'')\<lparr>m_fen := ''8/8 w'', m_isEmpty := False\<rparr>)
           (afterFen ''8/8 w'') (''8/8 w'', [])
   \<and> m_moves (fst (parse_loop toyBoard 10 (emptyGame ''x'') goodFenStream (''x'', []))) = [''e4'']"
proof -
  have a1: "scan_loop (emptyGame ''x'') locals0 (skipWhiteSpace badFenStream)
            = Done (fenLocals ''bad'') (afterFen ''bad'')"
    by code_simp
  have a2: "itemType (fenLocals ''bad'') = PgnTag" by (simp add: fenLocals_def)
  have a3: "section_first (trimmed (str (fenLocals ''bad''))) = ''FEN''" by code_simp
  have a4: "''bad'' = removeQuotes (section_rest (trimmed (str (fenLocals ''bad''))))"
    by code_simp
  have a5: "\<not> fst (setBoard toyBoard (''x'', []) ''bad'')" by (simp add: toyBoard_def)
  have a6: "status badFenStream = Ok" by (simp add: badFenStream_def textStream_def)
  have a7: "int (length (m_moves (emptyGame ''x'' :: string PgnGame))) < 10"
    by (simp add: emptyGame_def)
  have b1: "scan_loop (emptyGame ''x'') locals0 (skipWhiteSpace goodFenStream)
            = Done (fenLocals ''8/8 w'') (afterFen ''8/8 w'')"
    by code_simp
  have b2: "itemType (fenLocals ''8/8 w'') = PgnTag" by (simp add: fenLocals_def)
  have b3: "section_first (trimmed (str (fenLocals ''8/8 w''))) = ''FEN''" by code_simp
  have b4: "''8/8 w'' = removeQuotes (section_rest (trimmed (str (fenLocals ''8/8 w''))))"
    by code_simp
  have b5: "fst (setBoard toyBoard (''x'', []) ''8/8 w'')" by (simp add: toyBoard_def)
  have b5': "snd (setBoard toyBoard (''x'', []) ''8/8 w'') = (''8/8 w'', [])"
    by (simp add: toyBoard_def)
  have a5': "snd (setBoard toyBoard (''x'', []) ''bad'') = (''x'', [])"
    by (simp add: toyBoard_def)
  have b6: "status goodFenStream = Ok" by (simp add: goodFenStream_def textStream_def)
  have b7: "m_moves (fst (parse_loop toyBoard 10 (emptyGame ''x'') goodFenStream (''x'', [])))
            = [''e4'']"
    by code_simp
  note bad = fen_tag_rejected_or_applied [OF a1 a2 a3 a4, of toyBoard "(''x'', [])" 10]
  note good = fen_tag_rejected_or_applied [OF b1 b2 b3 b4, of toyBoard "(''x'', [])" 10]
  show ?thesis
    using bad good a1 a2 a3 a4 a5 a5' a6 a7 b1 b2 b3 b4 b5 b5' b6 b7 by simp
qed

subsection \<open>C5: a stream without a tag\<close>

text \<open>
  C5: for every stream whose unread text holds no \<^verbatim>\<open>[\<close>, and every \<open>maxMoves\<close>, the
  parsing constructor yields the game it started from: \<^verbatim>\<open>isEmpty\<close> is true and the
  move sequence is empty.
\<close>

theorem no_bracket_gives_empty_game:
  assumes "CHR ''['' \<notin> set (unread s)"
  shows "parsedGame B s maxMoves = emptyGame (fenString B (startBoard B))
    \<and> isEmpty (parsedGame B s maxMoves) \<and> m_moves (parsedGame B s maxMoves) = []"
  using assms
  by (simp add: parsedGame_def PgnGame_stream_def isEmpty_def parse_loop_no_bracket emptyGame_def)

theorem no_bracket_gives_empty_game_witness:
  "CHR ''['' \<notin> set (unread (textStream ''1. e4 e5 2. Nf3 1-0''))
   \<and> isEmpty (parsedGame toyBoard (textStream ''1. e4 e5 2. Nf3 1-0'') 1000)
   \<and> m_moves (parsedGame toyBoard (textStream ''1. e4 e5 2. Nf3 1-0'') 1000) = []"
proof -
  have h: "CHR ''['' \<notin> set (unread (textStream ''1. e4 e5 2. Nf3 1-0''))"
    by (simp add: textStream_def)
  show ?thesis
    using h no_bracket_gives_empty_game [OF h, of toyBoard 1000] by blast
qed

subsection \<open>C6: writing an empty game\<close>

text \<open>
  C6: for every game with \<^verbatim>\<open>isEmpty\<close> true, \<^verbatim>\<open>write\<close> leaves the file exactly as it
  was: nothing is appended, and the file is the only thing \<^verbatim>\<open>write\<close> acts on.
\<close>

theorem write_empty_is_noop: "m_isEmpty g \<Longrightarrow> write_pgn B date g f = f"
  by (simp add: write_pgn_def)

theorem write_empty_is_noop_witness:
  "m_isEmpty (emptyGame ''x'' :: string PgnGame)
   \<and> write_pgn toyBoard ''2026.11.03'' (emptyGame ''x'') \<lparr>appendable = True, contents = ''old''\<rparr>
       = \<lparr>appendable = True, contents = ''old''\<rparr>"
proof -
  have h: "m_isEmpty (emptyGame ''x'' :: string PgnGame)" by (simp add: emptyGame_def)
  show ?thesis
    using h write_empty_is_noop [OF h, of toyBoard "''2026.11.03''"] by simp
qed

subsection \<open>C7: the move text\<close>

text \<open>
  C7: for every game that is not empty (and a file that opens), what \<^verbatim>\<open>write\<close>
  appends after the tags is, ply by ply at index \<open>i\<close> from 0: a line break exactly
  when \<open>i\<close> is a multiple of 8, the move number \<open>i div 2 + 1\<close> followed by a period
  exactly when \<open>i\<close> is even, and the notation that the board gives for the move
  before the move is made on it; then the result token and an empty line.
\<close>

theorem write_move_text:
  assumes "\<not> m_isEmpty g" and "appendable f"
  shows "contents (write_pgn B date g f) = contents f @ write_tags B date g @ moveText B g"
  using assms
    write_moves_plies [of 0 "m_moves g" B "snd (setBoard B (newBoard B (m_variant g)) (m_fen g))"]
  by (simp add: write_pgn_def pgnText_def moveText_def boardBefore_def)

text \<open>
  In a game of 17 plies the line break stands before the plies 0, 8 and 16, and
  ply 16 carries the move number 9.
\<close>

theorem write_move_text_witness:
  "\<not> m_isEmpty seventeenPlies \<and> appendable \<lparr>appendable = True, contents = []\<rparr>
   \<and> contents (write_pgn toyBoard ''2026.11.03'' seventeenPlies \<lparr>appendable = True, contents = []\<rparr>)
       = write_tags toyBoard ''2026.11.03'' seventeenPlies @ moveText toyBoard seventeenPlies
   \<and> moveText toyBoard seventeenPlies
       = [CHR 0x0A] @ ''1. e4 e5 2. Nf3 Nc6 3. Bb5 a6 4. O-O e5 ''
         @ [CHR 0x0A] @ ''5. e4 e5 6. e4 e5 7. e4 e5 8. e4 e5 ''
         @ [CHR 0x0A] @ ''9. e4 1/2-1/2'' @ [CHR 0x0A, CHR 0x0A]"
proof -
  have h1: "\<not> m_isEmpty seventeenPlies" by (simp add: seventeenPlies_def)
  have h2: "appendable \<lparr>appendable = True, contents = []\<rparr>" by simp
  have plies: "moveText toyBoard seventeenPlies
       = [CHR 0x0A] @ ''1. e4 e5 2. Nf3 Nc6 3. Bb5 a6 4. O-O e5 ''
         @ [CHR 0x0A] @ ''5. e4 e5 6. e4 e5 7. e4 e5 8. e4 e5 ''
         @ [CHR 0x0A] @ ''9. e4 1/2-1/2'' @ [CHR 0x0A, CHR 0x0A]"
    by code_simp
  show ?thesis
    using h1 h2 plies write_move_text [OF h1 h2, of toyBoard "''2026.11.03''"] by simp
qed

subsection \<open>C8: the Gothic starting position\<close>

text \<open>
  C8: for every game that a constructor has built, of the Capablanca variant and
  with the Gothic starting position (a position other than the Capablanca one),
  \<^verbatim>\<open>write\<close> appends, after the four tags \<^verbatim>\<open>Date\<close>, \<^verbatim>\<open>White\<close>, \<^verbatim>\<open>Black\<close> and \<^verbatim>\<open>Result\<close>,
  the line \<^verbatim>\<open>[Variant "Gothic"]\<close> when the random flag is false and the line
  \<^verbatim>\<open>[Variant "Capablancarandom"]\<close> when it is true, and in both cases no \<^verbatim>\<open>FEN\<close>
  tag: the move text follows the \<^verbatim>\<open>Variant\<close> line directly.  The file is one that
  opens for appending.
\<close>

theorem write_gothic:
  assumes "built B g" and "m_variant g = CapablancaChess" and "m_fen g = gothicFen B"
    and "gothicFen B \<noteq> capablancaFen B" and "appendable f"
  shows "\<not> useFen B g
    \<and> variantString B g = (if m_isRandomVariant g then ''Capablancarandom'' else ''Gothic'')
    \<and> contents (write_pgn B date g f) =
       contents f
       @ ''[Date '' @ [CHR 0x22] @ date @ [CHR 0x22] @ '']'' @ [CHR 0x0A]
       @ ''[White '' @ [CHR 0x22] @ m_whitePlayer g @ [CHR 0x22] @ '']'' @ [CHR 0x0A]
       @ ''[Black '' @ [CHR 0x22] @ m_blackPlayer g @ [CHR 0x22] @ '']'' @ [CHR 0x0A]
       @ ''[Result '' @ [CHR 0x22] @ resultToString (m_result g) @ [CHR 0x22] @ '']'' @ [CHR 0x0A]
       @ (if m_isRandomVariant g
          then ''[Variant '' @ [CHR 0x22] @ ''Capablancarandom'' @ [CHR 0x22] @ '']'' @ [CHR 0x0A]
          else ''[Variant '' @ [CHR 0x22] @ ''Gothic'' @ [CHR 0x22] @ '']'' @ [CHR 0x0A])
       @ write_moves B (snd (setBoard B (newBoard B CapablancaChess) (gothicFen B))) 0 (m_moves g)
       @ resultToString (m_result g) @ [CHR 0x0A, CHR 0x0A]"
  using assms(2-5) built_capablanca_not_empty [OF assms(1,2)]
  by (simp add: write_pgn_def pgnText_def write_tags_def useFen_def variantString_def tagLine_def)

text \<open>The two files in full, for a game without moves and without a result.\<close>

theorem write_gothic_witness:
  "built toyBoard (PgnGame_game (gothicLiveGame False))
   \<and> built toyBoard (PgnGame_game (gothicLiveGame True))
   \<and> m_variant (PgnGame_game (gothicLiveGame False)) = CapablancaChess
   \<and> m_fen (PgnGame_game (gothicLiveGame False)) = gothicFen toyBoard
   \<and> m_variant (PgnGame_game (gothicLiveGame True)) = CapablancaChess
   \<and> m_fen (PgnGame_game (gothicLiveGame True)) = gothicFen toyBoard
   \<and> gothicFen toyBoard \<noteq> capablancaFen toyBoard
   \<and> appendable \<lparr>appendable = True, contents = []\<rparr>
   \<and> contents (write_pgn toyBoard ''2026.11.03'' (PgnGame_game (gothicLiveGame False))
                 \<lparr>appendable = True, contents = []\<rparr>)
       = ''[Date '' @ [CHR 0x22] @ ''2026.11.03'' @ [CHR 0x22] @ '']'' @ [CHR 0x0A]
         @ ''[White '' @ [CHR 0x22] @ ''A'' @ [CHR 0x22] @ '']'' @ [CHR 0x0A]
         @ ''[Black '' @ [CHR 0x22] @ ''B'' @ [CHR 0x22] @ '']'' @ [CHR 0x0A]
         @ ''[Result '' @ [CHR 0x22] @ ''*'' @ [CHR 0x22] @ '']'' @ [CHR 0x0A]
         @ ''[Variant '' @ [CHR 0x22] @ ''Gothic'' @ [CHR 0x22] @ '']'' @ [CHR 0x0A]
         @ ''*'' @ [CHR 0x0A, CHR 0x0A]
   \<and> contents (write_pgn toyBoard ''2026.11.03'' (PgnGame_game (gothicLiveGame True))
                 \<lparr>appendable = True, contents = []\<rparr>)
       = ''[Date '' @ [CHR 0x22] @ ''2026.11.03'' @ [CHR 0x22] @ '']'' @ [CHR 0x0A]
         @ ''[White '' @ [CHR 0x22] @ ''A'' @ [CHR 0x22] @ '']'' @ [CHR 0x0A]
         @ ''[Black '' @ [CHR 0x22] @ ''B'' @ [CHR 0x22] @ '']'' @ [CHR 0x0A]
         @ ''[Result '' @ [CHR 0x22] @ ''*'' @ [CHR 0x22] @ '']'' @ [CHR 0x0A]
         @ ''[Variant '' @ [CHR 0x22] @ ''Capablancarandom'' @ [CHR 0x22] @ '']'' @ [CHR 0x0A]
         @ ''*'' @ [CHR 0x0A, CHR 0x0A]"
proof -
  have bl: "built toyBoard (PgnGame_game (gothicLiveGame r))" for r
    by (rule built.from_game)
  have v: "m_variant (PgnGame_game (gothicLiveGame r)) = CapablancaChess" for r
    by (simp add: PgnGame_game_def gothicLiveGame_def)
  have p: "m_fen (PgnGame_game (gothicLiveGame r)) = gothicFen toyBoard" for r
    by (simp add: PgnGame_game_def gothicLiveGame_def)
  have d: "gothicFen toyBoard \<noteq> capablancaFen toyBoard" by (simp add: toyBoard_def)
  have a: "appendable \<lparr>appendable = True, contents = []\<rparr>" by simp
  have fields: "m_whitePlayer (PgnGame_game (gothicLiveGame r)) = ''A''"
    "m_blackPlayer (PgnGame_game (gothicLiveGame r)) = ''B''"
    "m_result (PgnGame_game (gothicLiveGame r)) = NoResult"
    "m_moves (PgnGame_game (gothicLiveGame r)) = []"
    "m_isRandomVariant (PgnGame_game (gothicLiveGame r)) = r" for r
    by (simp_all add: PgnGame_game_def gothicLiveGame_def)
  show ?thesis
    using write_gothic [OF bl v p d a, of False "''2026.11.03''"]
      write_gothic [OF bl v p d a, of True "''2026.11.03''"] bl v p d
    by (simp add: fields)
qed

subsection \<open>C9: numeric annotation glyphs\<close>

text \<open>
  C9: whenever the loop of \<^verbatim>\<open>readItem\<close> ends on a numeric annotation, the call
  returns \<^verbatim>\<open>PgnError\<close> exactly when the token does not parse as an integer or the
  integer lies outside 0 to 255, and \<^verbatim>\<open>PgnNag\<close> otherwise; either way the game
  (its move sequence and every other field) and the board are as before, so the
  value is kept nowhere.
\<close>

theorem nag_validated_and_discarded:
  assumes "scan_loop g locals0 (skipWhiteSpace s) = Done st s'" and "itemType st = PgnNag"
  shows "(fst (readItem B g s b) = PgnError \<longleftrightarrow>
            (toInt (trimmed (str st)) = None
             \<or> (\<exists>n. toInt (trimmed (str st)) = Some n \<and> (n < 0 \<or> 255 < n))))
    \<and> (fst (readItem B g s b) = PgnError \<or> fst (readItem B g s b) = PgnNag)
    \<and> snd (readItem B g s b) = (g, s', b)"
  using assms(2)
  by (auto simp add: readItem_Done [OF assms(1)] dispatch_def dispatchNag_def Let_def toInt_Nil
      split: option.splits)

text \<open>The glyph 300 is an error, the glyph 12 is accepted, and neither changes the game.\<close>

theorem nag_validated_and_discarded_witness:
  "scan_loop oneMoveGame locals0 (skipWhiteSpace (textStream ''$300 e5''))
     = Done (nagLocals ''300'') \<lparr>consumed = ''$300 '', unread = ''e5'', status = Ok\<rparr>
   \<and> itemType (nagLocals ''300'') = PgnNag
   \<and> toInt (trimmed (str (nagLocals ''300''))) = Some 300
   \<and> readItem toyBoard oneMoveGame (textStream ''$300 e5'') (''x'', [''e4''])
       = (PgnError, oneMoveGame, \<lparr>consumed = ''$300 '', unread = ''e5'', status = Ok\<rparr>,
          (''x'', [''e4'']))
   \<and> scan_loop oneMoveGame locals0 (skipWhiteSpace (textStream ''$12 e5''))
       = Done (nagLocals ''12'') \<lparr>consumed = ''$12 '', unread = ''e5'', status = Ok\<rparr>
   \<and> itemType (nagLocals ''12'') = PgnNag
   \<and> toInt (trimmed (str (nagLocals ''12''))) = Some 12
   \<and> readItem toyBoard oneMoveGame (textStream ''$12 e5'') (''x'', [''e4''])
       = (PgnNag, oneMoveGame, \<lparr>consumed = ''$12 '', unread = ''e5'', status = Ok\<rparr>,
          (''x'', [''e4'']))"
proof -
  have a1: "scan_loop oneMoveGame locals0 (skipWhiteSpace (textStream ''$300 e5''))
     = Done (nagLocals ''300'') \<lparr>consumed = ''$300 '', unread = ''e5'', status = Ok\<rparr>"
    by code_simp
  have a2: "itemType (nagLocals xs) = PgnNag" for xs by (simp add: nagLocals_def)
  have a3: "toInt (trimmed (str (nagLocals ''300''))) = Some 300" by code_simp
  have b1: "scan_loop oneMoveGame locals0 (skipWhiteSpace (textStream ''$12 e5''))
     = Done (nagLocals ''12'') \<lparr>consumed = ''$12 '', unread = ''e5'', status = Ok\<rparr>"
    by code_simp
  have b3: "toInt (trimmed (str (nagLocals ''12''))) = Some 12" by code_simp
  note bad = nag_validated_and_discarded [OF a1 a2, of toyBoard "(''x'', [''e4''])"]
  note good = nag_validated_and_discarded [OF b1 a2, of toyBoard "(''x'', [''e4''])"]
  have "readItem toyBoard oneMoveGame (textStream ''$300 e5'') (''x'', [''e4''])
       = (PgnError, oneMoveGame, \<lparr>consumed = ''$300 '', unread = ''e5'', status = Ok\<rparr>,
          (''x'', [''e4'']))"
    using bad a3 by (auto simp add: prod_eq_iff)
  moreover have "readItem toyBoard oneMoveGame (textStream ''$12 e5'') (''x'', [''e4''])
       = (PgnNag, oneMoveGame, \<lparr>consumed = ''$12 '', unread = ''e5'', status = Ok\<rparr>,
          (''x'', [''e4'']))"
    using good b3 by (auto simp add: prod_eq_iff)
  ultimately show ?thesis
    using a1 a2 a3 b1 b3 by simp
qed

subsection \<open>C10: an empty game reads only tags\<close>

text \<open>
  C10: while \<^verbatim>\<open>isEmpty\<close> is true, \<^verbatim>\<open>readItem\<close> returns \<^verbatim>\<open>PgnTag\<close> or \<^verbatim>\<open>PgnError\<close>
  and nothing else, on every stream; and its loop never ends on a move token
  with text in it, which is the only way into the branch of the move dispatch
  that reports a move before any tag, so that branch is never taken.
\<close>

theorem empty_game_reads_tag_or_error:
  assumes "m_isEmpty g"
  shows "(fst (readItem B g s b) = PgnTag \<or> fst (readItem B g s b) = PgnError)
    \<and> (\<forall>st s'. scan_loop g locals0 (skipWhiteSpace s) = Done st s' \<longrightarrow>
          \<not> (trimmed (str st) \<noteq> [] \<and> itemType st = PgnMove))"
proof -
  have start: "awaitingTag locals0"
    by (simp add: awaitingTag_def locals0_def)
  have scanned: "itemType st = PgnTag \<or> str st = []"
    if "scan_loop g locals0 (skipWhiteSpace s) = Done st s'" for st s'
    using scan_loop_awaitingTag [OF assms start that] .
  have "fst (readItem B g s b) = PgnTag \<or> fst (readItem B g s b) = PgnError"
  proof (cases "scan_loop g locals0 (skipWhiteSpace s)")
    case (Done st s')
    then show ?thesis
      using dispatch_empty_game [OF assms scanned [OF Done], of B b]
      by (simp add: readItem_Done [OF Done])
  next
    case (Early s')
    then show ?thesis by (simp add: readItem_Early)
  qed
  moreover have "\<not> (trimmed (str st) \<noteq> [] \<and> itemType st = PgnMove)"
    if "scan_loop g locals0 (skipWhiteSpace s) = Done st s'" for st s'
    using scanned [OF that] by (auto simp add: trimmed_def)
  ultimately show ?thesis by blast
qed

text \<open>A move in front of the first tag is skipped, and the tag is what is read.\<close>

theorem empty_game_reads_tag_or_error_witness:
  "m_isEmpty (emptyGame ''x'' :: string PgnGame)
   \<and> fst (readItem toyBoard (emptyGame ''x'') (textStream ''e4 [White A] e5'') (''x'', [])) = PgnTag
   \<and> scan_loop (emptyGame ''x'' :: string PgnGame) locals0
        (skipWhiteSpace (textStream ''e4 [White A] e5''))
       = Done (inTag 0 ''White A'') \<lparr>consumed = ''e4 [White A]'', unread = '' e5'', status = Ok\<rparr>
   \<and> \<not> (trimmed (str (inTag 0 ''White A'')) \<noteq> [] \<and> itemType (inTag 0 ''White A'') = PgnMove)"
proof -
  have h: "m_isEmpty (emptyGame ''x'' :: string PgnGame)" by (simp add: emptyGame_def)
  have run: "scan_loop (emptyGame ''x'' :: string PgnGame) locals0
        (skipWhiteSpace (textStream ''e4 [White A] e5''))
       = Done (inTag 0 ''White A'') \<lparr>consumed = ''e4 [White A]'', unread = '' e5'', status = Ok\<rparr>"
    by code_simp
  have item: "fst (readItem toyBoard (emptyGame ''x'') (textStream ''e4 [White A] e5'') (''x'', []))
              = PgnTag"
    by code_simp
  show ?thesis
    using h run item
      empty_game_reads_tag_or_error [OF h, of toyBoard "textStream ''e4 [White A] e5''" "(''x'', [])"]
    by blast
qed

subsection \<open>C1: the round trip\<close>

text \<open>
  C1 says that parsing what \<^verbatim>\<open>write\<close> wrote for a game that is not empty gives
  back the players, the result, the starting position, the variant and the
  notation of the moves.  Seven games for which it does not: a game of the
  Capablanca variant comes back as standard chess from the standard position
  (the parser reads no \<^verbatim>\<open>Variant\<close> tag); the result \<^verbatim>\<open>ResultError\<close> is written as
  \<^verbatim>\<open>*\<close> and comes back as \<^verbatim>\<open>NoResult\<close>; a double quote in a player name is dropped
  by the tag reader, and a closing bracket in one ends the tag; after a starting
  position that the board rejects no move is read; the random flag of the
  starting position, written as \<^verbatim>\<open>Variant "Fischerandom"\<close>, comes back false; a
  move that the board does not decode as legal is not read back.
\<close>

theorem round_trip_counterexample:
  "\<not> m_isEmpty (PgnGame_game (gothicLiveGame False))
   \<and> m_variant (parsedGame toyBoard (written (PgnGame_game (gothicLiveGame False))) 1000) \<noteq> m_variant (PgnGame_game (gothicLiveGame False))
   \<and> m_fen (parsedGame toyBoard (written (PgnGame_game (gothicLiveGame False))) 1000) \<noteq> m_fen (PgnGame_game (gothicLiveGame False))
   \<and> \<not> m_isEmpty resultErrorGame
   \<and> m_result (parsedGame toyBoard (written resultErrorGame) 1000) \<noteq> m_result resultErrorGame
   \<and> \<not> m_isEmpty quotedNameGame
   \<and> m_whitePlayer (parsedGame toyBoard (written quotedNameGame) 1000) \<noteq> m_whitePlayer quotedNameGame
   \<and> \<not> m_isEmpty bracketNameGame
   \<and> m_blackPlayer (parsedGame toyBoard (written bracketNameGame) 1000) \<noteq> m_blackPlayer bracketNameGame
   \<and> \<not> m_isEmpty rejectedStartGame
   \<and> sanList toyBoard (startBoard toyBoard) (m_moves (parsedGame toyBoard (written rejectedStartGame) 1000))
       \<noteq> sanList toyBoard (startBoard toyBoard) (m_moves rejectedStartGame)
   \<and> \<not> m_isEmpty randomStartGame
   \<and> m_isRandomVariant (parsedGame toyBoard (written randomStartGame) 1000)
       \<noteq> m_isRandomVariant randomStartGame
   \<and> \<not> m_isEmpty illegalMoveGame
   \<and> sanList toyBoard (startBoard toyBoard) (m_moves (parsedGame toyBoard (written illegalMoveGame) 1000))
       \<noteq> sanList toyBoard (startBoard toyBoard) (m_moves illegalMoveGame)"
  by code_simp

text \<open>
  C1, amended: take a game that is not empty, of the standard variant, whose
  player names hold no double quote, square bracket or line break (nor does
  the date, which is digits and periods), and whose starting position either
  is the standard one, which the freshly set-up board reports as its
  position, or is free of those characters and is accepted by
  \<^verbatim>\<open>setBoard\<close> on the set-up board with the same board as on a new one; let its
  moves replay on the rules engine (each notation is a move token that decodes,
  on the same board, to a legal move with the same notation and the same
  effect), and let \<open>maxMoves\<close> exceed the number of moves.  Then parsing the text
  that \<^verbatim>\<open>write\<close> appends to an empty file yields a game with the same player
  names, the same result token (the same result when it is one of \<^verbatim>\<open>NoResult\<close>,
  \<^verbatim>\<open>WhiteMates\<close>, \<^verbatim>\<open>BlackMates\<close>, \<^verbatim>\<open>DrawByAgreement\<close>), the same position string
  and variant, the random flag false (the same flag exactly when the game's flag
  is not set), and a move sequence of the same length with the same notation.
\<close>

theorem round_trip:
  assumes "\<not> m_isEmpty g" and "m_variant g = StandardChess"
    and "tagSafe (m_whitePlayer g)" and "tagSafe (m_blackPlayer g)" and "list_all tagChar date"
    and "if useFen B g
         then tagSafe (m_fen g)
              \<and> setBoard B (startBoard B) (m_fen g)
                  = (True, snd (setBoard B (newBoard B StandardChess) (m_fen g)))
         else fenString B (startBoard B) = m_fen g"
    and "replays B (snd (setBoard B (newBoard B (m_variant g)) (m_fen g))) (m_moves g)"
    and "int (length (m_moves g)) < maxMoves"
    and "g' = parsedGame B
                (textStream (contents (write_pgn B date g \<lparr>appendable = True, contents = []\<rparr>)))
                maxMoves"
  shows "m_whitePlayer g' = m_whitePlayer g \<and> m_blackPlayer g' = m_blackPlayer g
    \<and> resultToString (m_result g') = resultToString (m_result g)
    \<and> (m_result g = NoResult \<or> m_result g = WhiteMates \<or> m_result g = BlackMates
        \<or> m_result g = DrawByAgreement \<longrightarrow> m_result g' = m_result g)
    \<and> m_fen g' = m_fen g \<and> m_variant g' = m_variant g
    \<and> \<not> m_isRandomVariant g'
    \<and> (m_isRandomVariant g' = m_isRandomVariant g \<longleftrightarrow> \<not> m_isRandomVariant g)
    \<and> sanList B (snd (setBoard B (newBoard B (m_variant g)) (m_fen g))) (m_moves g')
        = sanList B (snd (setBoard B (newBoard B (m_variant g)) (m_fen g))) (m_moves g)
    \<and> length (m_moves g') = length (m_moves g) \<and> \<not> isEmpty g'"
proof -
  have rep: "replays B (snd (setBoard B (newBoard B StandardChess) (m_fen g))) (m_moves g)"
    using assms(2,7) by simp
  have "contents (write_pgn B date g \<lparr>appendable = True, contents = []\<rparr>) = pgnText B date g"
    using assms(1) by (simp add: write_pgn_def)
  then have g': "g' = \<lparr>m_whitePlayer = m_whitePlayer g, m_blackPlayer = m_blackPlayer g,
            m_moves = reparsed B (snd (setBoard B (newBoard B StandardChess) (m_fen g))) (m_moves g),
            m_fen = m_fen g, m_variant = StandardChess, m_isRandomVariant = False,
            m_result = resultFromString (resultToString (m_result g)),
            m_isEmpty = False, m_round = 0\<rparr>"
    using parse_written_game [OF assms(1-6) rep assms(8)] assms(9) by simp
  show ?thesis
    using sanList_reparsed [OF rep] assms(2) resultToString_round [of "m_result g"]
      resultFromString_round [of "m_result g"]
    by (auto simp add: g' isEmpty_def)
qed

text \<open>
  The game of 17 plies comes back as it was; the game from a position of its own,
  resigned by Black, comes back with its position, its moves and the result
  token \<^verbatim>\<open>1-0\<close>.
\<close>

theorem round_trip_witness:
  "\<not> m_isEmpty seventeenPlies \<and> m_variant seventeenPlies = StandardChess
   \<and> tagSafe (m_whitePlayer seventeenPlies) \<and> tagSafe (m_blackPlayer seventeenPlies)
   \<and> list_all tagChar ''2026.11.03''
   \<and> \<not> useFen toyBoard seventeenPlies
   \<and> fenString toyBoard (startBoard toyBoard) = m_fen seventeenPlies
   \<and> replays toyBoard (snd (setBoard toyBoard (newBoard toyBoard (m_variant seventeenPlies))
                               (m_fen seventeenPlies))) (m_moves seventeenPlies)
   \<and> int (length (m_moves seventeenPlies)) < 1000
   \<and> m_result seventeenPlies = DrawByAgreement
   \<and> parsedGame toyBoard (written seventeenPlies) 1000 = seventeenPlies
   \<and> m_result (parsedGame toyBoard (written seventeenPlies) 1000) = DrawByAgreement
   \<and> m_isRandomVariant (parsedGame toyBoard (written seventeenPlies) 1000)
       = m_isRandomVariant seventeenPlies
   \<and> \<not> m_isEmpty customStartGame \<and> m_variant customStartGame = StandardChess
   \<and> tagSafe (m_whitePlayer customStartGame) \<and> tagSafe (m_blackPlayer customStartGame)
   \<and> useFen toyBoard customStartGame \<and> tagSafe (m_fen customStartGame)
   \<and> setBoard toyBoard (startBoard toyBoard) (m_fen customStartGame)
       = (True, snd (setBoard toyBoard (newBoard toyBoard StandardChess) (m_fen customStartGame)))
   \<and> replays toyBoard (snd (setBoard toyBoard (newBoard toyBoard (m_variant customStartGame))
                               (m_fen customStartGame))) (m_moves customStartGame)
   \<and> int (length (m_moves customStartGame)) < 1000
   \<and> m_whitePlayer (parsedGame toyBoard (written customStartGame) 1000) = ''A''
   \<and> m_fen (parsedGame toyBoard (written customStartGame) 1000) = ''8/8 w - - 0 1''
   \<and> m_isRandomVariant customStartGame
   \<and> \<not> m_isRandomVariant (parsedGame toyBoard (written customStartGame) 1000)
   \<and> resultToString (m_result (parsedGame toyBoard (written customStartGame) 1000)) = ''1-0''
   \<and> sanList toyBoard (''8/8 w - - 0 1'', [])
        (m_moves (parsedGame toyBoard (written customStartGame) 1000)) = [''e4'', ''e5'']"
proof -
  have a: "\<not> m_isEmpty seventeenPlies" "m_variant seventeenPlies = StandardChess"
    "tagSafe (m_whitePlayer seventeenPlies)" "tagSafe (m_blackPlayer seventeenPlies)"
    "list_all tagChar ''2026.11.03''"
    by code_simp+
  have a6: "if useFen toyBoard seventeenPlies
         then tagSafe (m_fen seventeenPlies)
              \<and> setBoard toyBoard (startBoard toyBoard) (m_fen seventeenPlies)
                  = (True, snd (setBoard toyBoard (newBoard toyBoard StandardChess) (m_fen seventeenPlies)))
         else fenString toyBoard (startBoard toyBoard) = m_fen seventeenPlies"
    by code_simp
  have a6': "\<not> useFen toyBoard seventeenPlies"
    "fenString toyBoard (startBoard toyBoard) = m_fen seventeenPlies"
    by code_simp+
  have a7: "replays toyBoard (snd (setBoard toyBoard (newBoard toyBoard (m_variant seventeenPlies))
                               (m_fen seventeenPlies))) (m_moves seventeenPlies)"
    by code_simp
  have a8: "int (length (m_moves seventeenPlies)) < 1000"
    by (simp add: seventeenPlies_def)
  have a9: "m_result seventeenPlies = DrawByAgreement" by (simp add: seventeenPlies_def)
  have b: "\<not> m_isEmpty customStartGame" "m_variant customStartGame = StandardChess"
    "tagSafe (m_whitePlayer customStartGame)" "tagSafe (m_blackPlayer customStartGame)"
    by code_simp+
  have b6: "if useFen toyBoard customStartGame
         then tagSafe (m_fen customStartGame)
              \<and> setBoard toyBoard (startBoard toyBoard) (m_fen customStartGame)
                  = (True, snd (setBoard toyBoard (newBoard toyBoard StandardChess) (m_fen customStartGame)))
         else fenString toyBoard (startBoard toyBoard) = m_fen customStartGame"
    by code_simp
  have b6': "useFen toyBoard customStartGame" "tagSafe (m_fen customStartGame)"
    "setBoard toyBoard (startBoard toyBoard) (m_fen customStartGame)
       = (True, snd (setBoard toyBoard (newBoard toyBoard StandardChess) (m_fen customStartGame)))"
    by code_simp+
  have b7: "replays toyBoard (snd (setBoard toyBoard (newBoard toyBoard (m_variant customStartGame))
                               (m_fen customStartGame))) (m_moves customStartGame)"
    by code_simp
  have b8: "int (length (m_moves customStartGame)) < 1000"
    by (simp add: customStartGame_def oneMoveGame_def)
  have fields: "m_whitePlayer customStartGame = ''A''" "m_fen customStartGame = ''8/8 w - - 0 1''"
    "m_result customStartGame = BlackResigns" "m_moves customStartGame = [''e4'', ''e5'']"
    "m_variant customStartGame = StandardChess"
    by (simp_all add: customStartGame_def oneMoveGame_def emptyGame_def)
  have board: "snd (setBoard toyBoard (newBoard toyBoard StandardChess) ''8/8 w - - 0 1'')
               = (''8/8 w - - 0 1'', [])"
    by (simp add: toyBoard_def)
  have sans: "sanList toyBoard (''8/8 w - - 0 1'', []) [''e4'', ''e5''] = [''e4'', ''e5'']"
    by (simp add: toyBoard_def)
  have whole: "parsedGame toyBoard (written seventeenPlies) 1000 = seventeenPlies"
    by code_simp
  have wr: "parsedGame toyBoard (written g) 1000
            = parsedGame toyBoard
                (textStream (contents (write_pgn toyBoard ''2026.11.03'' g
                                         \<lparr>appendable = True, contents = []\<rparr>))) 1000" for g
    by (simp add: written_def)
  note w1 = round_trip [OF a a6 a7 a8 wr]
  note w2 = round_trip [OF b a(5) b6 b7 b8 wr]
  have c0: "m_result (parsedGame toyBoard (written seventeenPlies) 1000) = DrawByAgreement"
    using w1 a9 by simp
  have r0: "\<not> m_isRandomVariant seventeenPlies"
    by (simp add: seventeenPlies_def emptyGame_def)
  have c0': "m_isRandomVariant (parsedGame toyBoard (written seventeenPlies) 1000)
             = m_isRandomVariant seventeenPlies"
    using w1 r0 by simp
  have r1: "m_isRandomVariant customStartGame"
    by (simp add: customStartGame_def)
  have c1': "\<not> m_isRandomVariant (parsedGame toyBoard (written customStartGame) 1000)"
    using w2 by simp
  have c1: "m_whitePlayer (parsedGame toyBoard (written customStartGame) 1000) = ''A''"
    using w2 fields(1) by simp
  have c2: "m_fen (parsedGame toyBoard (written customStartGame) 1000) = ''8/8 w - - 0 1''"
    using w2 fields(2) by simp
  have c3: "resultToString (m_result (parsedGame toyBoard (written customStartGame) 1000)) = ''1-0''"
    using w2 fields(3) by simp
  have c4: "sanList toyBoard (''8/8 w - - 0 1'', [])
        (m_moves (parsedGame toyBoard (written customStartGame) 1000)) = [''e4'', ''e5'']"
    using w2 sans by (simp add: fields board)
  show ?thesis
    by (intro conjI) (fact a a6' a7 a8 a9 whole c0 c0' b b6' b7 b8 c1 c2 c3 c4 r1 c1')+
qed

end
